theory Spec2Isabelle
  imports Main "HOL-Library.Word" "HOL-Library.Multiset"
begin

unbundle bit_operations_syntax

section \<open>Key derivation: \<open>GenerateKey\<close>\<close>

text \<open>
  \<open>GenerateKey\<close> appends \<open>"|"\<close> to every component, concatenates the pieces in order,
  applies \<open>md5.Sum\<close> to the bytes and prints the 16 digest bytes with \<open>%x\<close> (two lowercase
  hexadecimal digits per byte). \<open>md5.Sum\<close> is the Go standard library's MD5; it is modelled
  here as RFC 1321 defines it: padding to a multiple of 64 bytes, little-endian 32-bit words,
  64 steps per block on 32-bit words with wrap-around addition.
\<close>

type_synonym u8 = "8 word"

type_synonym u32 = "32 word"

type_synonym u64 = "64 word"

definition md5_K :: "u32 list" where
  "md5_K = [0xd76aa478, 0xe8c7b756, 0x242070db, 0xc1bdceee, 0xf57c0faf, 0x4787c62a, 0xa8304613, 0xfd469501, 0x698098d8, 0x8b44f7af, 0xffff5bb1, 0x895cd7be, 0x6b901122, 0xfd987193, 0xa679438e, 0x49b40821, 0xf61e2562, 0xc040b340, 0x265e5a51, 0xe9b6c7aa, 0xd62f105d, 0x02441453, 0xd8a1e681, 0xe7d3fbc8, 0x21e1cde6, 0xc33707d6, 0xf4d50d87, 0x455a14ed, 0xa9e3e905, 0xfcefa3f8, 0x676f02d9, 0x8d2a4c8a, 0xfffa3942, 0x8771f681, 0x6d9d6122, 0xfde5380c, 0xa4beea44, 0x4bdecfa9, 0xf6bb4b60, 0xbebfbc70, 0x289b7ec6, 0xeaa127fa, 0xd4ef3085, 0x04881d05, 0xd9d4d039, 0xe6db99e5, 0x1fa27cf8, 0xc4ac5665, 0xf4292244, 0x432aff97, 0xab9423a7, 0xfc93a039, 0x655b59c3, 0x8f0ccc92, 0xffeff47d, 0x85845dd1, 0x6fa87e4f, 0xfe2ce6e0, 0xa3014314, 0x4e0811a1, 0xf7537e82, 0xbd3af235, 0x2ad7d2bb, 0xeb86d391]"

definition md5_s :: "nat list" where
  "md5_s = [7, 12, 17, 22, 7, 12, 17, 22, 7, 12, 17, 22, 7, 12, 17, 22,
            5, 9, 14, 20, 5, 9, 14, 20, 5, 9, 14, 20, 5, 9, 14, 20,
            4, 11, 16, 23, 4, 11, 16, 23, 4, 11, 16, 23, 4, 11, 16, 23,
            6, 10, 15, 21, 6, 10, 15, 21, 6, 10, 15, 21, 6, 10, 15, 21]"

definition rotl32 :: "u32 \<Rightarrow> nat \<Rightarrow> u32" where
  "rotl32 x n = push_bit n x OR drop_bit (32 - n) x"

definition le_bytes64 :: "u64 \<Rightarrow> u8 list" where
  "le_bytes64 x = map (\<lambda>i. ucast (drop_bit (8 * i) x)) [0..<8]"

definition le_bytes32 :: "u32 \<Rightarrow> u8 list" where
  "le_bytes32 x = map (\<lambda>i. ucast (drop_bit (8 * i) x)) [0..<4]"

definition md5_pad :: "u8 list \<Rightarrow> u8 list" where
  "md5_pad msg = msg @ [0x80] @ replicate ((119 - length msg mod 64) mod 64) 0
                 @ le_bytes64 (8 * word_of_nat (length msg))"

fun le_words :: "u8 list \<Rightarrow> u32 list" where
  "le_words (b0 # b1 # b2 # b3 # bs) =
     (ucast b0 OR push_bit 8 (ucast b1) OR push_bit 16 (ucast b2) OR push_bit 24 (ucast b3))
       # le_words bs"
| "le_words _ = []"

type_synonym md5_state = "u32 \<times> u32 \<times> u32 \<times> u32"

fun md5_step :: "u32 list \<Rightarrow> md5_state \<Rightarrow> nat \<Rightarrow> md5_state" where
  "md5_step M (a, b, c, d) i =
     (let f = (if i < 16 then (b AND c) OR (NOT b AND d)
               else if i < 32 then (d AND b) OR (NOT d AND c)
               else if i < 48 then b XOR c XOR d
               else c XOR (b OR NOT d));
          g = (if i < 16 then i
               else if i < 32 then (5 * i + 1) mod 16
               else if i < 48 then (3 * i + 5) mod 16
               else (7 * i) mod 16);
          f' = f + a + md5_K ! i + M ! g
      in (d, b + rotl32 f' (md5_s ! i), b, c))"

definition md5_block :: "md5_state \<Rightarrow> u32 list \<Rightarrow> md5_state" where
  "md5_block st M =
     (case (st, foldl (md5_step M) st [0..<64]) of
        ((a0, b0, c0, d0), (a, b, c, d)) \<Rightarrow> (a0 + a, b0 + b, c0 + c, d0 + d))"

fun md5_blocks :: "md5_state \<Rightarrow> u32 list \<Rightarrow> md5_state" where
  "md5_blocks st ws = (if length ws < 16 then st
                       else md5_blocks (md5_block st (take 16 ws)) (drop 16 ws))"

definition md5_sum :: "u8 list \<Rightarrow> u8 list" where
  "md5_sum msg =
     (case md5_blocks (0x67452301, 0xefcdab89, 0x98badcfe, 0x10325476) (le_words (md5_pad msg)) of
        (a, b, c, d) \<Rightarrow> le_bytes32 a @ le_bytes32 b @ le_bytes32 c @ le_bytes32 d)"

definition hex_digit :: "u8 \<Rightarrow> char" where
  "hex_digit n = ''0123456789abcdef'' ! unat n"

definition hex_bytes :: "u8 list \<Rightarrow> string" where
  "hex_bytes bs = concat (map (\<lambda>b. [hex_digit (drop_bit 4 b), hex_digit (b AND 0x0f)]) bs)"

definition GenerateKey :: "string list \<Rightarrow> string" where
  "GenerateKey components =
     (let combined = foldl (\<lambda>acc comp. acc @ (comp @ ''|'')) '''' components
      in hex_bytes (md5_sum (map of_char combined)))"

section \<open>The store\<close>

subsection \<open>Values and their estimated size\<close>

text \<open>
  A cached value is an \<open>interface{}\<close>. \<open>estimateSize\<close> looks only at the reflection kind of
  the value, so the model is a datatype with one constructor per kind the function
  distinguishes: the nil interface, a string, a slice or array (with the flag whether its
  element type is an interface type, which is what \<open>v.Index(0).Kind() == reflect.Interface\<close>
  tests), a map, a pointer (nil or to a value), a struct (its fields), and the remaining
  kinds (booleans, numbers and all others).
\<close>

datatype govalue =
    VNil
  | VString string
  | VSlice bool "govalue list"
  | VMap "(govalue \<times> govalue) list"
  | VPtr "govalue option"
  | VStruct "govalue list"
  | VBool bool
  | VInt int
  | VOther

text \<open>
  The default case returns \<open>unsafe.Sizeof(value)\<close> for \<open>value\<close> of static type
  \<open>interface{}\<close>: the size of an interface header, 16 bytes on a 64-bit platform.
\<close>

fun estimateSize :: "govalue \<Rightarrow> int" where
  "estimateSize VNil = 8"
| "estimateSize (VString s) = int (length s + 16)"
| "estimateSize (VSlice iface xs) =
     (let size0 = int (length xs) * 8;
          size1 = (if length xs > 0 \<and> iface then size0 * 4 else size0)
      in size1 + 24)"
| "estimateSize (VMap kvs) = int (length kvs) * 32"
| "estimateSize (VPtr None) = 8"
| "estimateSize (VPtr (Some v)) = 8 + estimateSize v"
| "estimateSize (VStruct fields) = int (length fields) * 16"
| "estimateSize _ = 16"

subsection \<open>Entries and the cache\<close>

text \<open>
  Instants and durations are integers (nanoseconds); \<open>t.After(u)\<close> is \<open>u < t\<close>.
  The map \<open>items\<close> is an association list with one pair per key. Go leaves the order in
  which a \<open>range\<close> loop visits a map unspecified; the order of the list stands for that
  order, and the statements below quantify over it. The mutex is not modelled: every
  operation runs under the lock and is one step of the model. The clock reads inside one
  call are one instant \<open>now\<close>, an argument of the operation.
\<close>

type_synonym time = int

type_synonym duration = int

definition After :: "time \<Rightarrow> time \<Rightarrow> bool" where
  "After t u = (u < t)"

record item =
  item_value :: govalue
  expiresAt :: time
  item_size :: int

type_synonym keyItem = "string \<times> item"

record Cache =
  items :: "keyItem list"
  defaultTTL :: duration
  maxItems :: int
  maxMemory :: int
  currentSize :: int

definition New :: "duration \<Rightarrow> Cache" where
  "New ttl = \<lparr>items = [], defaultTTL = ttl, maxItems = 500,
              maxMemory = 100 * 1024 * 1024, currentSize = 0\<rparr>"

definition NewWithMaxItems :: "duration \<Rightarrow> int \<Rightarrow> Cache" where
  "NewWithMaxItems ttl n = \<lparr>items = [], defaultTTL = ttl, maxItems = n,
              maxMemory = 100 * 1024 * 1024, currentSize = 0\<rparr>"

text \<open>
  \<open>int64(maxMemoryMB) * 1024 * 1024\<close> is a product of 64-bit integers and wraps around.
\<close>

definition NewWithMemoryLimit :: "duration \<Rightarrow> int \<Rightarrow> Cache" where
  "NewWithMemoryLimit ttl maxMemoryMB = \<lparr>items = [], defaultTTL = ttl, maxItems = 10000,
              maxMemory = sint (word_of_int (maxMemoryMB * 1024 * 1024) :: 64 word),
              currentSize = 0\<rparr>"

definition NewWithoutCleanup :: "duration \<Rightarrow> Cache" where
  "NewWithoutCleanup ttl = \<lparr>items = [], defaultTTL = ttl, maxItems = 500,
              maxMemory = 100 * 1024 * 1024, currentSize = 0\<rparr>"

text \<open>\<open>delete(c.items, key)\<close> and \<open>c.items[key] = it\<close>.\<close>

definition map_delete :: "string \<Rightarrow> keyItem list \<Rightarrow> keyItem list" where
  "map_delete key xs = filter (\<lambda>p. fst p \<noteq> key) xs"

fun map_store :: "string \<Rightarrow> item \<Rightarrow> keyItem list \<Rightarrow> keyItem list" where
  "map_store key it [] = [(key, it)]"
| "map_store key it (p # ps) = (if fst p = key then (key, it) # ps else p # map_store key it ps)"

subsection \<open>Eviction\<close>

text \<open>
  \<open>evictExpired\<close>: the loop over the map removes every visited entry that has expired and
  subtracts its size.
\<close>

fun evictExpired_loop :: "time \<Rightarrow> keyItem list \<Rightarrow> Cache \<Rightarrow> Cache" where
  "evictExpired_loop now [] c = c"
| "evictExpired_loop now (p # ps) c =
     evictExpired_loop now ps
       (if After now (expiresAt (snd p))
        then c\<lparr>currentSize := currentSize c - item_size (snd p),
               items := map_delete (fst p) (items c)\<rparr>
        else c)"

definition evictExpired :: "time \<Rightarrow> Cache \<Rightarrow> Cache" where
  "evictExpired now c = evictExpired_loop now (items c) c"

text \<open>
  The sort of \<open>evictOldest\<close> and \<open>evictOldestBySize\<close>: for every position \<open>i\<close>, the inner
  loop compares \<open>items[i]\<close> with each later \<open>items[j]\<close> and swaps the two when \<open>items[i]\<close>
  expires after \<open>items[j]\<close>. \<open>sort_inner x ys\<close> runs the inner loop with \<open>x\<close> at position
  \<open>i\<close> and \<open>ys\<close> behind it, and returns the entry left at position \<open>i\<close> and the entries
  behind it.
\<close>

fun sort_inner :: "keyItem \<Rightarrow> keyItem list \<Rightarrow> keyItem \<times> keyItem list" where
  "sort_inner x [] = (x, [])"
| "sort_inner x (y # ys) =
     (if After (expiresAt (snd x)) (expiresAt (snd y))
      then (case sort_inner y ys of (m, r) \<Rightarrow> (m, x # r))
      else (case sort_inner x ys of (m, r) \<Rightarrow> (m, y # r)))"

lemma sort_inner_length: "length (snd (sort_inner x ys)) = length ys"
  by (induction x ys rule: sort_inner.induct) (simp_all add: case_prod_beta)

function sortByExpiry :: "keyItem list \<Rightarrow> keyItem list" where
  "sortByExpiry [] = []"
| "sortByExpiry (x # xs) = (case sort_inner x xs of (m, r) \<Rightarrow> m # sortByExpiry r)"
  by pat_completeness auto

termination
  apply (relation "measure length")
   apply simp
  subgoal premises prems for x xs m r
  proof -
    have "sort_inner x xs = (m, r)" using prems by simp
    with sort_inner_length [of x xs] show ?thesis by simp
  qed
  done

text \<open>The removal loops of \<open>evictOldest\<close> and \<open>evictOldestBySize\<close>.\<close>

fun evictOldest_loop :: "keyItem list \<Rightarrow> Cache \<Rightarrow> Cache" where
  "evictOldest_loop [] c = c"
| "evictOldest_loop (p # ps) c =
     evictOldest_loop ps
       (c\<lparr>currentSize := currentSize c - item_size (snd p),
          items := map_delete (fst p) (items c)\<rparr>)"

definition evictOldest :: "int \<Rightarrow> Cache \<Rightarrow> Cache" where
  "evictOldest cnt c =
     (if cnt \<le> 0 then c
      else evictOldest_loop (take (nat cnt) (sortByExpiry (items c))) c)"

fun evictOldestBySize_loop :: "int \<Rightarrow> int \<Rightarrow> keyItem list \<Rightarrow> Cache \<Rightarrow> Cache" where
  "evictOldestBySize_loop target freedBytes [] c = c"
| "evictOldestBySize_loop target freedBytes (p # ps) c =
     (if freedBytes < target
      then evictOldestBySize_loop target (freedBytes + item_size (snd p)) ps
             (c\<lparr>currentSize := currentSize c - item_size (snd p),
                items := map_delete (fst p) (items c)\<rparr>)
      else c)"

definition evictOldestBySize :: "int \<Rightarrow> Cache \<Rightarrow> Cache" where
  "evictOldestBySize targetBytesToFree c =
     (if targetBytesToFree \<le> 0 then c
      else evictOldestBySize_loop targetBytesToFree 0 (sortByExpiry (items c)) c)"

definition evictToFitMemory :: "int \<Rightarrow> time \<Rightarrow> Cache \<Rightarrow> Cache" where
  "evictToFitMemory newItemSize now c =
     (let targetSize = maxMemory c - newItemSize;
          c1 = evictExpired now c
      in if currentSize c1 > targetSize
         then evictOldestBySize (currentSize c1 - targetSize) c1
         else c1)"

subsection \<open>The operations\<close>

definition Set :: "string \<Rightarrow> govalue \<Rightarrow> duration \<Rightarrow> time \<Rightarrow> Cache \<Rightarrow> Cache" where
  "Set key v ttl0 now c =
     (let ttl = (if ttl0 = 0 then defaultTTL c else ttl0);
          c1 = (if maxItems c > 0 \<and> int (length (items c)) \<ge> maxItems c
                then (let c' = evictExpired now c
                      in if int (length (items c')) \<ge> maxItems c'
                         then evictOldest (int (length (items c')) - maxItems c' + 1) c'
                         else c')
                else c);
          itemSize = estimateSize v;
          c2 = (case map_of (items c1) key of
                  Some existingItem \<Rightarrow> c1\<lparr>currentSize := currentSize c1 - item_size existingItem\<rparr>
                | None \<Rightarrow> c1);
          c3 = (if maxMemory c2 > 0 \<and> currentSize c2 + itemSize > maxMemory c2
                then evictToFitMemory itemSize now c2
                else c2);
          newItem = \<lparr>item_value = v, expiresAt = now + ttl, item_size = itemSize\<rparr>
      in c3\<lparr>items := map_store key newItem (items c3),
            currentSize := currentSize c3 + itemSize\<rparr>)"

text \<open>
  \<open>Get\<close> and \<open>Stats\<close> take the read lock and write nothing; they return their result
  together with the cache they leave behind.
\<close>

definition Get :: "string \<Rightarrow> time \<Rightarrow> Cache \<Rightarrow> (govalue \<times> bool) \<times> Cache" where
  "Get key now c =
     (case map_of (items c) key of
        None \<Rightarrow> ((VNil, False), c)
      | Some it \<Rightarrow>
          if After now (expiresAt it) then ((VNil, False), c)
          else ((item_value it, True), c))"

definition Delete :: "string \<Rightarrow> Cache \<Rightarrow> Cache" where
  "Delete key c =
     (case map_of (items c) key of
        Some it \<Rightarrow> c\<lparr>currentSize := currentSize c - item_size it,
                      items := map_delete key (items c)\<rparr>
      | None \<Rightarrow> c)"

definition Clear :: "Cache \<Rightarrow> Cache" where
  "Clear c = c\<lparr>items := [], currentSize := 0\<rparr>"

text \<open>
  One pass of the \<open>cleanup\<close> goroutine (the body of its ticker loop): every expired
  entry is deleted from the map.
\<close>

fun cleanup_loop :: "time \<Rightarrow> keyItem list \<Rightarrow> Cache \<Rightarrow> Cache" where
  "cleanup_loop now [] c = c"
| "cleanup_loop now (p # ps) c =
     cleanup_loop now ps
       (if After now (expiresAt (snd p))
        then c\<lparr>items := map_delete (fst p) (items c)\<rparr>
        else c)"

definition cleanup_pass :: "time \<Rightarrow> Cache \<Rightarrow> Cache" where
  "cleanup_pass now c = cleanup_loop now (items c) c"

text \<open>Go's integer division truncates towards zero.\<close>

definition go_div :: "int \<Rightarrow> int \<Rightarrow> int" where
  "go_div a b = sgn a * sgn b * (\<bar>a\<bar> div \<bar>b\<bar>)"

record stats =
  total_items :: int
  expired_items :: int
  active_items :: int
  memory_used_mb :: int
  memory_limit_mb :: int
  memory_used_bytes :: int

fun Stats_loop :: "time \<Rightarrow> keyItem list \<Rightarrow> int \<Rightarrow> int" where
  "Stats_loop now [] expired = expired"
| "Stats_loop now (p # ps) expired =
     Stats_loop now ps (if After now (expiresAt (snd p)) then expired + 1 else expired)"

definition Stats :: "time \<Rightarrow> Cache \<Rightarrow> stats \<times> Cache" where
  "Stats now c =
     (let expired = Stats_loop now (items c) 0
      in (\<lparr>total_items = int (length (items c)),
           expired_items = expired,
           active_items = int (length (items c)) - expired,
           memory_used_mb = go_div (currentSize c) (1024 * 1024),
           memory_limit_mb = go_div (maxMemory c) (1024 * 1024),
           memory_used_bytes = currentSize c\<rparr>, c))"

text \<open>
  The sum of the estimated sizes of the stored entries, and the association lists that
  stand for a map: no key occurs twice.
\<close>

definition storedBytes :: "keyItem list \<Rightarrow> int" where
  "storedBytes xs = sum_list (map (\<lambda>p. item_size (snd p)) xs)"

definition one_entry_per_key :: "Cache \<Rightarrow> bool" where
  "one_entry_per_key c = distinct (map fst (items c))"

subsection \<open>Auxiliary definitions\<close>

text \<open>
  The definitions of this subsection are not functions of the source: they name parts of
  it, or properties of a cache, for the statements and proofs below.
\<close>

text \<open>
  The number of entries the removal loop of \<open>evictOldestBySize\<close> deletes from the sorted
  list: it stops as soon as the freed bytes reach the target.
\<close>

fun bySize_count :: "int \<Rightarrow> int \<Rightarrow> keyItem list \<Rightarrow> nat" where
  "bySize_count target freed [] = 0"
| "bySize_count target freed (p # ps) =
     (if freed < target then Suc (bySize_count target (freed + item_size (snd p)) ps) else 0)"

text \<open>The three stages of \<open>Set\<close> before the store, as functions of their own.\<close>

definition Set_capacity :: "time \<Rightarrow> Cache \<Rightarrow> Cache" where
  "Set_capacity now c =
     (if maxItems c > 0 \<and> int (length (items c)) \<ge> maxItems c
      then (let c' = evictExpired now c
            in if int (length (items c')) \<ge> maxItems c'
               then evictOldest (int (length (items c')) - maxItems c' + 1) c'
               else c')
      else c)"

definition Set_replace :: "string \<Rightarrow> Cache \<Rightarrow> Cache" where
  "Set_replace key c1 =
     (case map_of (items c1) key of
        Some existingItem \<Rightarrow> c1\<lparr>currentSize := currentSize c1 - item_size existingItem\<rparr>
      | None \<Rightarrow> c1)"

definition Set_memory :: "int \<Rightarrow> time \<Rightarrow> Cache \<Rightarrow> Cache" where
  "Set_memory itemSize now c2 =
     (if maxMemory c2 > 0 \<and> currentSize c2 + itemSize > maxMemory c2
      then evictToFitMemory itemSize now c2
      else c2)"

text \<open>
  The accounting invariant: the running total \<open>currentSize\<close> is the sum of the sizes of
  the stored entries. \<open>old_size key c\<close> is what \<open>Set\<close> subtracts for the entry the key
  already has, if any.
\<close>

definition accounting_ok :: "Cache \<Rightarrow> bool" where
  "accounting_ok c = (currentSize c = storedBytes (items c))"

definition old_size :: "string \<Rightarrow> Cache \<Rightarrow> int" where
  "old_size key c = (case map_of (items c) key of Some existingItem \<Rightarrow> item_size existingItem | None \<Rightarrow> 0)"

text \<open>The two conditions under which \<open>Set\<close> evicts, as \<open>Set\<close> tests them.\<close>

definition capacity_bound_hit :: "Cache \<Rightarrow> bool" where
  "capacity_bound_hit c = (maxItems c > 0 \<and> int (length (items c)) \<ge> maxItems c)"

definition memory_bound_hit :: "string \<Rightarrow> govalue \<Rightarrow> Cache \<Rightarrow> bool" where
  "memory_bound_hit key v c =
     (maxMemory c > 0 \<and> currentSize c - old_size key c + estimateSize v > maxMemory c)"

text \<open>The entry \<open>Set\<close> stores: \<open>newItem := &item{value, time.Now().Add(ttl), itemSize}\<close>.\<close>

definition newItem :: "govalue \<Rightarrow> duration \<Rightarrow> time \<Rightarrow> Cache \<Rightarrow> item" where
  "newItem v ttl0 now c =
     \<lparr>item_value = v, expiresAt = now + (if ttl0 = 0 then defaultTTL c else ttl0),
      item_size = estimateSize v\<rparr>"

section \<open>Properties of the key derivation\<close>

lemma GenerateKey_combined:
  "foldl (\<lambda>acc comp. acc @ (comp @ ''|'')) '''' xs = foldl (\<lambda>acc comp. acc @ (comp @ ''|'')) '''' ys
   \<Longrightarrow> GenerateKey xs = GenerateKey ys"
  by (simp add: GenerateKey_def)

lemma GenerateKey_roleA:
  "GenerateKey [''SELECT 1'', ''conn://x'', ''roleA''] = ''47286ef44e40d9584a20c50edf964d7f''"
  by code_simp

lemma GenerateKey_roleB:
  "GenerateKey [''SELECT 1'', ''conn://x'', ''roleB''] = ''ac745bf012986349d66b20ff0b28b753''"
  by code_simp

text \<open>
  C1. Role isolation on the concrete inputs: the keys of the statement \<open>SELECT 1\<close> over the
  connection \<open>conn://x\<close> for the roles \<open>roleA\<close> and \<open>roleB\<close> are different fingerprints.
\<close>

theorem GenerateKey_role_isolation:
  "GenerateKey [''SELECT 1'', ''conn://x'', ''roleA'']
     \<noteq> GenerateKey [''SELECT 1'', ''conn://x'', ''roleB'']"
  unfolding GenerateKey_roleA GenerateKey_roleB by simp

text \<open>
  C10. The separator may occur inside a component, so the concatenation is not injective:
  the distinct component lists \<open>["a|", "b"]\<close> and \<open>["a", "|b"]\<close> both give the pre-hash
  string \<open>a||b|\<close> and therefore the same key, whatever the hash function does.
\<close>

theorem GenerateKey_separator_ambiguity:
  "[''a|'', ''b''] \<noteq> [''a'', ''|b'']
   \<and> GenerateKey [''a|'', ''b''] = GenerateKey [''a'', ''|b'']"
proof
  show "[''a|'', ''b''] \<noteq> [''a'', ''|b'']" by simp
  show "GenerateKey [''a|'', ''b''] = GenerateKey [''a'', ''|b'']"
    by (rule GenerateKey_combined) simp
qed

section \<open>Properties of the store\<close>

lemma map_of_map_store: "map_of (map_store k it xs) k = Some it"
  by (induction xs) auto

lemma map_of_map_store_other: "k' \<noteq> k \<Longrightarrow> map_of (map_store k it xs) k' = map_of xs k'"
  by (induction xs) auto

lemma evictOldest_loop_fields:
  "maxMemory (evictOldest_loop ps c) = maxMemory c
   \<and> maxItems (evictOldest_loop ps c) = maxItems c
   \<and> defaultTTL (evictOldest_loop ps c) = defaultTTL c"
  by (induction ps arbitrary: c) simp_all

lemma evictOldest_loop_items:
  "items (evictOldest_loop ps c) = filter (\<lambda>q. fst q \<notin> fst ` set ps) (items c)"
  by (induction ps arbitrary: c) (auto simp: map_delete_def intro: filter_cong)

lemma evictOldest_loop_currentSize:
  "currentSize (evictOldest_loop ps c) = currentSize c - storedBytes ps"
  by (induction ps arbitrary: c) (simp_all add: storedBytes_def)

lemma evictExpired_loop_eq:
  "evictExpired_loop now ps c = evictOldest_loop (filter (\<lambda>p. After now (expiresAt (snd p))) ps) c"
  by (induction ps arbitrary: c) simp_all

lemma evictOldestBySize_loop_eq:
  "evictOldestBySize_loop target freed ps c = evictOldest_loop (take (bySize_count target freed ps) ps) c"
  by (induction ps arbitrary: c freed) simp_all

lemma cleanup_loop_items:
  "items (cleanup_loop now ps c) = filter (\<lambda>q. fst q \<notin> fst ` {p \<in> set ps. After now (expiresAt (snd p))}) (items c)"
  by (induction ps arbitrary: c) (auto simp: map_delete_def intro: filter_cong)

lemma cleanup_loop_currentSize: "currentSize (cleanup_loop now ps c) = currentSize c"
  by (induction ps arbitrary: c) simp_all

lemma Stats_loop_count:
  "Stats_loop now ps n = n + int (length (filter (\<lambda>p. After now (expiresAt (snd p))) ps))"
  by (induction ps arbitrary: n) simp_all

lemma go_div_pos_divisor:
  "0 < b \<Longrightarrow> go_div a b = (if 0 \<le> a then a div b else - ((- a) div b))"
  by (cases "a = 0") (auto simp: go_div_def sgn_if abs_if)

text \<open>
  C9. \<open>Stats\<close> is a read-only snapshot: it leaves the cache (map, memory total and
  configuration) as it was and returns the number of entries, the number of entries that
  have expired and are still in the map, the active count as total minus expired, the
  memory total in bytes, and the memory total and the configured limit in whole MB: the
  quotient by 1048576, rounded towards zero (for a total that is not negative, the
  integer quotient).
\<close>

theorem Stats_read_only:
  "snd (Stats now c) = c
   \<and> total_items (fst (Stats now c)) = int (length (items c))
   \<and> expired_items (fst (Stats now c))
       = int (length (filter (\<lambda>p. After now (expiresAt (snd p))) (items c)))
   \<and> active_items (fst (Stats now c))
       = int (length (items c))
         - int (length (filter (\<lambda>p. After now (expiresAt (snd p))) (items c)))
   \<and> memory_used_bytes (fst (Stats now c)) = currentSize c
   \<and> memory_used_mb (fst (Stats now c))
       = (if 0 \<le> currentSize c then currentSize c div 1048576
          else - ((- currentSize c) div 1048576))
   \<and> memory_limit_mb (fst (Stats now c))
       = (if 0 \<le> maxMemory c then maxMemory c div 1048576
          else - ((- maxMemory c) div 1048576))"
  by (simp add: Stats_def Let_def Stats_loop_count go_div_pos_divisor)

text \<open>
  On a cache of two entries, one of them expired at instant 15, with a total of 3 MB and 5
  bytes and the default limit: 2 entries, 1 expired, 1 active, 3145733 bytes, 3 MB used,
  100 MB limit. With a total of \<open>-1048577\<close> the MB figure is \<open>-1\<close>, rounded towards zero.
\<close>

theorem Stats_read_only_witness:
  "snd (Stats 15 \<lparr>items = [(''a'', \<lparr>item_value = VInt 1, expiresAt = 10, item_size = 16\<rparr>),
               (''b'', \<lparr>item_value = VInt 2, expiresAt = 20, item_size = 16\<rparr>)],
      defaultTTL = 60, maxItems = 500, maxMemory = 104857600, currentSize = 3145733\<rparr>) = \<lparr>items = [(''a'', \<lparr>item_value = VInt 1, expiresAt = 10, item_size = 16\<rparr>),
               (''b'', \<lparr>item_value = VInt 2, expiresAt = 20, item_size = 16\<rparr>)],
      defaultTTL = 60, maxItems = 500, maxMemory = 104857600, currentSize = 3145733\<rparr>
   \<and> total_items (fst (Stats 15 \<lparr>items = [(''a'', \<lparr>item_value = VInt 1, expiresAt = 10, item_size = 16\<rparr>),
               (''b'', \<lparr>item_value = VInt 2, expiresAt = 20, item_size = 16\<rparr>)],
      defaultTTL = 60, maxItems = 500, maxMemory = 104857600, currentSize = 3145733\<rparr>)) = 2
   \<and> expired_items (fst (Stats 15 \<lparr>items = [(''a'', \<lparr>item_value = VInt 1, expiresAt = 10, item_size = 16\<rparr>),
               (''b'', \<lparr>item_value = VInt 2, expiresAt = 20, item_size = 16\<rparr>)],
      defaultTTL = 60, maxItems = 500, maxMemory = 104857600, currentSize = 3145733\<rparr>)) = 1
   \<and> active_items (fst (Stats 15 \<lparr>items = [(''a'', \<lparr>item_value = VInt 1, expiresAt = 10, item_size = 16\<rparr>),
               (''b'', \<lparr>item_value = VInt 2, expiresAt = 20, item_size = 16\<rparr>)],
      defaultTTL = 60, maxItems = 500, maxMemory = 104857600, currentSize = 3145733\<rparr>)) = 1
   \<and> memory_used_bytes (fst (Stats 15 \<lparr>items = [(''a'', \<lparr>item_value = VInt 1, expiresAt = 10, item_size = 16\<rparr>),
               (''b'', \<lparr>item_value = VInt 2, expiresAt = 20, item_size = 16\<rparr>)],
      defaultTTL = 60, maxItems = 500, maxMemory = 104857600, currentSize = 3145733\<rparr>)) = 3145733
   \<and> memory_used_mb (fst (Stats 15 \<lparr>items = [(''a'', \<lparr>item_value = VInt 1, expiresAt = 10, item_size = 16\<rparr>),
               (''b'', \<lparr>item_value = VInt 2, expiresAt = 20, item_size = 16\<rparr>)],
      defaultTTL = 60, maxItems = 500, maxMemory = 104857600, currentSize = 3145733\<rparr>)) = 3
   \<and> memory_limit_mb (fst (Stats 15 \<lparr>items = [(''a'', \<lparr>item_value = VInt 1, expiresAt = 10, item_size = 16\<rparr>),
               (''b'', \<lparr>item_value = VInt 2, expiresAt = 20, item_size = 16\<rparr>)],
      defaultTTL = 60, maxItems = 500, maxMemory = 104857600, currentSize = 3145733\<rparr>)) = 100
   \<and> memory_used_mb (fst (Stats 15 \<lparr>items = [], defaultTTL = 60, maxItems = 500, maxMemory = 104857600,
      currentSize = - 1048577\<rparr>)) = - 1"
  using Stats_read_only [of 15 "\<lparr>items = [(''a'', \<lparr>item_value = VInt 1, expiresAt = 10, item_size = 16\<rparr>),
               (''b'', \<lparr>item_value = VInt 2, expiresAt = 20, item_size = 16\<rparr>)],
      defaultTTL = 60, maxItems = 500, maxMemory = 104857600, currentSize = 3145733\<rparr>"]
        Stats_read_only [of 15 "\<lparr>items = [], defaultTTL = 60, maxItems = 500, maxMemory = 104857600,
      currentSize = - 1048577\<rparr>"]
  by (simp add: After_def)

lemma evictExpired_fields:
  "maxMemory (evictExpired now c) = maxMemory c
   \<and> maxItems (evictExpired now c) = maxItems c
   \<and> defaultTTL (evictExpired now c) = defaultTTL c"
  by (simp add: evictExpired_def evictExpired_loop_eq evictOldest_loop_fields)

lemma evictOldest_fields:
  "maxMemory (evictOldest n c) = maxMemory c
   \<and> maxItems (evictOldest n c) = maxItems c
   \<and> defaultTTL (evictOldest n c) = defaultTTL c"
  by (simp add: evictOldest_def evictOldest_loop_fields)

lemma evictOldestBySize_fields:
  "maxMemory (evictOldestBySize n c) = maxMemory c
   \<and> maxItems (evictOldestBySize n c) = maxItems c
   \<and> defaultTTL (evictOldestBySize n c) = defaultTTL c"
  by (simp add: evictOldestBySize_def evictOldestBySize_loop_eq evictOldest_loop_fields)

lemma evictToFitMemory_fields:
  "maxMemory (evictToFitMemory n now c) = maxMemory c
   \<and> maxItems (evictToFitMemory n now c) = maxItems c
   \<and> defaultTTL (evictToFitMemory n now c) = defaultTTL c"
  by (simp add: evictToFitMemory_def Let_def evictOldestBySize_fields evictExpired_fields)

lemma evictOldest_loop_subset: "set (items (evictOldest_loop ps c)) \<subseteq> set (items c)"
  by (simp add: evictOldest_loop_items)

lemma evictExpired_subset: "set (items (evictExpired now c)) \<subseteq> set (items c)"
  by (simp add: evictExpired_def evictExpired_loop_eq evictOldest_loop_items)

lemma evictOldest_subset: "set (items (evictOldest n c)) \<subseteq> set (items c)"
  by (simp add: evictOldest_def evictOldest_loop_items)

lemma evictOldestBySize_subset: "set (items (evictOldestBySize n c)) \<subseteq> set (items c)"
  by (simp add: evictOldestBySize_def evictOldestBySize_loop_eq evictOldest_loop_items)

lemma evictToFitMemory_subset: "set (items (evictToFitMemory n now c)) \<subseteq> set (items c)"
  by (auto simp: evictToFitMemory_def Let_def
      dest!: subsetD [OF evictOldestBySize_subset] subsetD [OF evictExpired_subset])

lemma Set_stages:
  "Set key v ttl0 now c =
     (let c3 = Set_memory (estimateSize v) now (Set_replace key (Set_capacity now c))
      in c3\<lparr>items := map_store key
                 \<lparr>item_value = v, expiresAt = now + (if ttl0 = 0 then defaultTTL c else ttl0),
                  item_size = estimateSize v\<rparr> (items c3),
            currentSize := currentSize c3 + estimateSize v\<rparr>)"
  by (simp add: Set_def Set_capacity_def Set_replace_def Set_memory_def Let_def)

lemma Set_capacity_fields:
  "maxMemory (Set_capacity now c) = maxMemory c
   \<and> maxItems (Set_capacity now c) = maxItems c
   \<and> defaultTTL (Set_capacity now c) = defaultTTL c"
  by (simp add: Set_capacity_def Let_def evictOldest_fields evictExpired_fields)

lemma Set_replace_fields:
  "maxMemory (Set_replace k c) = maxMemory c
   \<and> maxItems (Set_replace k c) = maxItems c
   \<and> defaultTTL (Set_replace k c) = defaultTTL c
   \<and> items (Set_replace k c) = items c"
  by (simp add: Set_replace_def split: option.splits)

lemma Set_memory_fields:
  "maxMemory (Set_memory n now c) = maxMemory c
   \<and> maxItems (Set_memory n now c) = maxItems c
   \<and> defaultTTL (Set_memory n now c) = defaultTTL c"
  by (simp add: Set_memory_def evictToFitMemory_fields)

lemma Set_fields:
  "maxMemory (Set k v ttl now c) = maxMemory c
   \<and> maxItems (Set k v ttl now c) = maxItems c
   \<and> defaultTTL (Set k v ttl now c) = defaultTTL c"
  by (simp add: Set_stages Let_def Set_memory_fields Set_replace_fields Set_capacity_fields)

lemma Set_capacity_subset: "set (items (Set_capacity now c)) \<subseteq> set (items c)"
  by (auto simp: Set_capacity_def Let_def
      dest!: subsetD [OF evictOldest_subset] subsetD [OF evictExpired_subset])

lemma Set_memory_subset: "set (items (Set_memory n now c)) \<subseteq> set (items c)"
  using evictToFitMemory_subset by (simp add: Set_memory_def)

lemma Set_lookup:
  "map_of (items (Set k v ttl now c)) k
     = Some \<lparr>item_value = v, expiresAt = now + (if ttl = 0 then defaultTTL c else ttl),
             item_size = estimateSize v\<rparr>"
  by (simp add: Set_stages Let_def map_of_map_store)

text \<open>
  C3, as the code has it. After \<open>Set k v ttl\<close> at instant \<open>now\<close>, the entry expires at
  \<open>now + ttl\<close> (the default TTL when \<open>ttl = 0\<close>). \<open>Get k\<close> at instant \<open>t\<close>, with nothing
  run in between, returns \<open>(v, true)\<close> as long as \<open>t\<close> is not after the expiration, so also
  at the expiration instant itself, and \<open>(nil, false)\<close> once \<open>t\<close> is strictly after it.
  An absent key is not found, and \<open>Get\<close> leaves the cache as it is, expired entries
  included.
\<close>

theorem Get_after_Set:
  "fst (Get k t (Set k v ttl now c))
     = (if After t (now + (if ttl = 0 then defaultTTL c else ttl)) then (VNil, False) else (v, True))
   \<and> snd (Get k t c') = c'
   \<and> (map_of (items c') k = None \<longrightarrow> fst (Get k t c') = (VNil, False))"
  by (simp add: Get_def Set_lookup split: option.splits)

text \<open>
  At the expiration instant itself the entry is still returned: \<open>Get\<close> tests
  \<open>time.Now().After(item.expiresAt)\<close>, which is false when the two instants are equal.
\<close>

theorem Get_at_expiration_counterexample:
  "map_of (items (Set ''k'' (VString ''v'') 10 0 (NewWithoutCleanup 60))) ''k''
     = Some \<lparr>item_value = VString ''v'', expiresAt = 10, item_size = 17\<rparr>
   \<and> fst (Get ''k'' 10 (Set ''k'' (VString ''v'') 10 0 (NewWithoutCleanup 60))) = (VString ''v'', True)"
  by (simp add: Get_def Set_lookup After_def)

theorem Get_after_Set_witness:
  "fst (Get ''k'' 10 (Set ''k'' (VString ''v'') 10 0 (NewWithoutCleanup 60))) = (VString ''v'', True)
   \<and> fst (Get ''k'' 11 (Set ''k'' (VString ''v'') 10 0 (NewWithoutCleanup 60))) = (VNil, False)
   \<and> map_of (items (NewWithoutCleanup 60)) ''k'' = None
   \<and> fst (Get ''k'' 11 (NewWithoutCleanup 60)) = (VNil, False)"
  using Get_after_Set [of "''k''" 10 "VString ''v''" 10 0 "NewWithoutCleanup 60" "NewWithoutCleanup 60"]
        Get_after_Set [of "''k''" 11 "VString ''v''" 10 0 "NewWithoutCleanup 60" "NewWithoutCleanup 60"]
  by (simp add: After_def NewWithoutCleanup_def)

subsection \<open>The running total and the stored sizes\<close>

lemma storedBytes_simps [simp]:
  "storedBytes [] = 0"
  "storedBytes (p # ps) = item_size (snd p) + storedBytes ps"
  by (simp_all add: storedBytes_def)

lemma storedBytes_append: "storedBytes (xs @ ys) = storedBytes xs + storedBytes ys"
  by (simp add: storedBytes_def)

lemma estimateSize_nonneg: "0 \<le> estimateSize v"
  by (induction v rule: estimateSize.induct) (simp_all add: Let_def)

lemma storedBytes_map_store:
  "storedBytes (map_store k it xs)
     = storedBytes xs - (case map_of xs k of Some e \<Rightarrow> item_size e | None \<Rightarrow> 0) + item_size it"
  by (induction xs) auto

lemma storedBytes_nonneg:
  "\<forall>p\<in>set xs. 0 \<le> item_size (snd p) \<Longrightarrow> 0 \<le> storedBytes xs"
  by (induction xs) auto

lemma storedBytes_map_store_ge:
  "\<forall>p\<in>set xs. 0 \<le> item_size (snd p) \<Longrightarrow> item_size it \<le> storedBytes (map_store k it xs)"
  by (induction xs) (auto dest: storedBytes_nonneg)

lemma map_fst_map_store:
  "map fst (map_store k it xs) = (if k \<in> fst ` set xs then map fst xs else map fst xs @ [k])"
  by (induction xs) auto

lemma distinct_map_store:
  "distinct (map fst xs) \<Longrightarrow> distinct (map fst (map_store k it xs))"
  by (simp add: map_fst_map_store)

lemma count_key_map_store:
  "distinct (map fst xs) \<Longrightarrow> length (filter (\<lambda>p. fst p = k) (map_store k it xs)) = 1"
proof (induction xs)
  case Nil
  then show ?case by simp
next
  case (Cons p ps)
  show ?case
  proof (cases "fst p = k")
    case True
    with Cons.prems have "k \<notin> fst ` set ps" by auto
    then have "\<forall>q\<in>set ps. fst q \<noteq> k" by (auto intro: rev_image_eqI)
    then have "filter (\<lambda>q. fst q = k) ps = []" by (simp add: filter_empty_conv)
    with True show ?thesis by simp
  next
    case False
    with Cons show ?thesis by simp
  qed
qed

lemma length_map_store:
  "length (map_store k it xs) = (if k \<in> fst ` set xs then length xs else Suc (length xs))"
  by (induction xs) auto

lemma Set_no_bound:
  assumes "\<not> capacity_bound_hit c" and "\<not> memory_bound_hit k v c"
  shows "Set k v ttl now c
           = c\<lparr>items := map_store k \<lparr>item_value = v,
                                      expiresAt = now + (if ttl = 0 then defaultTTL c else ttl),
                                      item_size = estimateSize v\<rparr> (items c),
                currentSize := currentSize c - old_size k c + estimateSize v\<rparr>"
proof -
  have c1: "Set_capacity now c = c"
    using assms(1) by (auto simp: Set_capacity_def capacity_bound_hit_def)
  have cs: "currentSize (Set_replace k c) = currentSize c - old_size k c"
    by (simp add: Set_replace_def old_size_def split: option.splits)
  have c3: "Set_memory (estimateSize v) now (Set_replace k c) = Set_replace k c"
    using assms(2) cs
    by (auto simp: Set_memory_def memory_bound_hit_def Set_replace_fields)
  show ?thesis
    by (simp add: Set_stages Let_def c1 c3 cs Set_replace_fields)
qed

text \<open>
  C7. \<open>Set k v ttl\<close> twice in a row, neither call meeting the item bound and the first
  not meeting the memory bound (the second then cannot): the map holds exactly one entry
  for \<open>k\<close>, the one of the second call, and the running total is the one before the first
  call, less the size of the entry \<open>k\<close> had then, plus one estimated size of \<open>v\<close>. The
  second call leaves the total of the first unchanged, and a total that equalled the sum
  of the stored sizes before still does.
\<close>

theorem Set_twice:
  assumes "one_entry_per_key c"
    and "\<not> capacity_bound_hit c" and "\<not> memory_bound_hit k v c"
    and "\<not> capacity_bound_hit (Set k v ttl t1 c)"
  shows "length (filter (\<lambda>p. fst p = k) (items (Set k v ttl t2 (Set k v ttl t1 c)))) = 1
     \<and> map_of (items (Set k v ttl t2 (Set k v ttl t1 c))) k
         = Some \<lparr>item_value = v, expiresAt = t2 + (if ttl = 0 then defaultTTL c else ttl),
                 item_size = estimateSize v\<rparr>
     \<and> currentSize (Set k v ttl t2 (Set k v ttl t1 c))
         = currentSize c - old_size k c + estimateSize v
     \<and> currentSize (Set k v ttl t2 (Set k v ttl t1 c)) = currentSize (Set k v ttl t1 c)
     \<and> (accounting_ok c \<longrightarrow> accounting_ok (Set k v ttl t2 (Set k v ttl t1 c)))"
proof -
  let ?ttl = "if ttl = 0 then defaultTTL c else ttl"
  let ?it1 = "\<lparr>item_value = v, expiresAt = t1 + ?ttl, item_size = estimateSize v\<rparr>"
  let ?it2 = "\<lparr>item_value = v, expiresAt = t2 + ?ttl, item_size = estimateSize v\<rparr>"
  let ?c1 = "Set k v ttl t1 c"
  let ?c2 = "Set k v ttl t2 ?c1"
  have c1: "?c1 = c\<lparr>items := map_store k ?it1 (items c),
                     currentSize := currentSize c - old_size k c + estimateSize v\<rparr>"
    using assms(2,3) by (rule Set_no_bound)
  have old1: "old_size k ?c1 = estimateSize v"
    by (simp add: old_size_def Set_lookup)
  have mem1: "\<not> memory_bound_hit k v ?c1"
    using assms(3) by (simp add: memory_bound_hit_def old1 Set_fields) (simp add: c1)
  have c2: "?c2 = ?c1\<lparr>items := map_store k ?it2 (items ?c1),
                       currentSize := currentSize ?c1 - old_size k ?c1 + estimateSize v\<rparr>"
    using Set_no_bound [OF assms(4) mem1, of ttl t2] by (simp add: Set_fields)
  have d1: "distinct (map fst (items ?c1))"
    using assms(1) by (simp add: c1 one_entry_per_key_def distinct_map_store)
  have one: "length (filter (\<lambda>p. fst p = k) (items ?c2)) = 1"
    by (subst c2) (simp add: count_key_map_store [OF d1])
  have look: "map_of (items ?c2) k = Some ?it2"
    by (simp add: Set_lookup Set_fields)
  have size2: "currentSize ?c2 = currentSize ?c1"
    by (subst c2) (simp add: old1)
  have size1: "currentSize ?c1 = currentSize c - old_size k c + estimateSize v"
    by (subst c1) simp
  have sb1: "storedBytes (items ?c1) = storedBytes (items c) - old_size k c + estimateSize v"
    by (subst c1) (simp add: storedBytes_map_store old_size_def)
  have sb2: "storedBytes (items ?c2) = storedBytes (items ?c1)"
    by (subst c2) (simp add: storedBytes_map_store Set_lookup)
  have acc: "accounting_ok c \<longrightarrow> accounting_ok ?c2"
    by (simp add: accounting_ok_def size2 size1 sb2 sb1)
  from one look size2 size1 acc show ?thesis by simp
qed

theorem Set_twice_witness:
  "one_entry_per_key (NewWithoutCleanup 60)
   \<and> \<not> capacity_bound_hit (NewWithoutCleanup 60)
   \<and> \<not> memory_bound_hit ''k'' (VString ''v'') (NewWithoutCleanup 60)
   \<and> \<not> capacity_bound_hit (Set ''k'' (VString ''v'') 0 0 (NewWithoutCleanup 60))
   \<and> length (filter (\<lambda>p. fst p = ''k'')
         (items (Set ''k'' (VString ''v'') 0 1 (Set ''k'' (VString ''v'') 0 0 (NewWithoutCleanup 60))))) = 1
   \<and> currentSize (Set ''k'' (VString ''v'') 0 1 (Set ''k'' (VString ''v'') 0 0 (NewWithoutCleanup 60))) = 17"
proof -
  have h1: "one_entry_per_key (NewWithoutCleanup 60)"
    by (simp add: one_entry_per_key_def NewWithoutCleanup_def)
  have h2: "\<not> capacity_bound_hit (NewWithoutCleanup 60)"
    by (simp add: capacity_bound_hit_def NewWithoutCleanup_def)
  have h3: "\<not> memory_bound_hit ''k'' (VString ''v'') (NewWithoutCleanup 60)"
    by (simp add: memory_bound_hit_def old_size_def NewWithoutCleanup_def)
  have h4: "\<not> capacity_bound_hit (Set ''k'' (VString ''v'') 0 0 (NewWithoutCleanup 60))"
    by (simp add: Set_no_bound [OF h2 h3] capacity_bound_hit_def) (simp add: NewWithoutCleanup_def)
  have old: "old_size ''k'' (NewWithoutCleanup 60) = 0" "currentSize (NewWithoutCleanup 60) = 0"
    by (simp_all add: old_size_def NewWithoutCleanup_def)
  from Set_twice [OF h1 h2 h3 h4, of 1] h1 h2 h3 h4 old show ?thesis by simp
qed

text \<open>
  C8. A value whose estimated size alone exceeds a positive memory bound is always
  admitted: \<open>Set\<close> has no path that returns without storing. Whatever the prior state, the
  key then maps to the new entry, the bound itself is unchanged, and the sizes stored
  exceed it (the sizes of stored entries are estimates, hence not negative).
\<close>

theorem Set_admits_oversized:
  assumes "maxMemory c > 0" and "estimateSize v > maxMemory c"
    and "\<forall>p\<in>set (items c). 0 \<le> item_size (snd p)"
  shows "map_of (items (Set k v ttl now c)) k
           = Some \<lparr>item_value = v, expiresAt = now + (if ttl = 0 then defaultTTL c else ttl),
                   item_size = estimateSize v\<rparr>
     \<and> maxMemory (Set k v ttl now c) = maxMemory c
     \<and> storedBytes (items (Set k v ttl now c)) > maxMemory (Set k v ttl now c)"
proof -
  let ?c3 = "Set_memory (estimateSize v) now (Set_replace k (Set_capacity now c))"
  let ?it = "\<lparr>item_value = v, expiresAt = now + (if ttl = 0 then defaultTTL c else ttl),
              item_size = estimateSize v\<rparr>"
  have "set (items ?c3) \<subseteq> set (items c)"
    using Set_memory_subset [of "estimateSize v" now "Set_replace k (Set_capacity now c)"]
          Set_capacity_subset [of now c]
    by (auto simp: Set_replace_fields)
  with assms(3) have "\<forall>p\<in>set (items ?c3). 0 \<le> item_size (snd p)" by blast
  then have "item_size ?it \<le> storedBytes (map_store k ?it (items ?c3))"
    by (rule storedBytes_map_store_ge)
  moreover have "items (Set k v ttl now c) = map_store k ?it (items ?c3)"
    by (simp add: Set_stages Let_def)
  ultimately have "estimateSize v \<le> storedBytes (items (Set k v ttl now c))" by simp
  with assms(2) show ?thesis by (simp add: Set_lookup Set_fields)
qed

theorem Set_admits_oversized_witness:
  "maxMemory (Set ''a'' (VInt 1) 5 0 (NewWithMemoryLimit 60 0\<lparr>maxMemory := 20\<rparr>)) > 0
   \<and> estimateSize (VString ''0123456789'') > maxMemory (Set ''a'' (VInt 1) 5 0 (NewWithMemoryLimit 60 0\<lparr>maxMemory := 20\<rparr>))
   \<and> list_all (\<lambda>p. 0 \<le> item_size (snd p))
         (items (Set ''a'' (VInt 1) 5 0 (NewWithMemoryLimit 60 0\<lparr>maxMemory := 20\<rparr>)))
   \<and> map_of (items (Set ''k'' (VString ''0123456789'') 7 1
                      (Set ''a'' (VInt 1) 5 0 (NewWithMemoryLimit 60 0\<lparr>maxMemory := 20\<rparr>)))) ''k''
       = Some \<lparr>item_value = VString ''0123456789'', expiresAt = 8, item_size = 26\<rparr>
   \<and> storedBytes (items (Set ''k'' (VString ''0123456789'') 7 1
                      (Set ''a'' (VInt 1) 5 0 (NewWithMemoryLimit 60 0\<lparr>maxMemory := 20\<rparr>)))) > 20"
proof -
  let ?c = "Set ''a'' (VInt 1) 5 0 (NewWithMemoryLimit 60 0\<lparr>maxMemory := 20\<rparr>)"
  have c: "?c = \<lparr>items = [(''a'', \<lparr>item_value = VInt 1, expiresAt = 5, item_size = 16\<rparr>)],
                 defaultTTL = 60, maxItems = 10000, maxMemory = 20, currentSize = 16\<rparr>"
    by (simp add: Set_def Let_def NewWithMemoryLimit_def)
  have h1: "maxMemory ?c > 0" by (simp add: c)
  have h2: "estimateSize (VString ''0123456789'') > maxMemory ?c" by (simp add: c)
  have h3: "\<forall>p\<in>set (items ?c). 0 \<le> item_size (snd p)" by (simp add: c)
  from Set_admits_oversized [OF h1 h2 h3, of "''k''" 7 1] h1 h2 h3 show ?thesis
    by (simp add: c list_all_iff)
qed

subsection \<open>The sweep and the running total\<close>

lemma cleanup_pass_currentSize: "currentSize (cleanup_pass now c) = currentSize c"
  by (simp add: cleanup_pass_def cleanup_loop_currentSize)

lemma filter_keys_distinct:
  "distinct (map fst xs) \<Longrightarrow>
   filter (\<lambda>q. fst q \<notin> fst ` {p \<in> set xs. P p}) xs = filter (\<lambda>q. \<not> P q) xs"
  by (rule filter_cong) (auto simp: image_iff dest: eq_key_imp_eq_value)

lemma cleanup_pass_items:
  "one_entry_per_key c \<Longrightarrow>
   items (cleanup_pass now c) = filter (\<lambda>p. \<not> After now (expiresAt (snd p))) (items c)"
  by (simp add: cleanup_pass_def cleanup_loop_items one_entry_per_key_def filter_keys_distinct)

text \<open>
  C2 on the code. A \<open>Set\<close> on a fresh cache leaves the total equal to the stored sizes;
  one pass of the sweep after the entry has expired empties the map and leaves the total
  at the size of the removed entry: \<open>cleanup\<close> deletes without subtracting, where
  \<open>evictExpired\<close> subtracts.
\<close>

theorem sweep_breaks_accounting:
  "accounting_ok (Set ''k'' (VString ''v'') 1 0 (NewWithoutCleanup 60))
   \<and> items (cleanup_pass 2 (Set ''k'' (VString ''v'') 1 0 (NewWithoutCleanup 60))) = []
   \<and> currentSize (cleanup_pass 2 (Set ''k'' (VString ''v'') 1 0 (NewWithoutCleanup 60))) = 17
   \<and> \<not> accounting_ok (cleanup_pass 2 (Set ''k'' (VString ''v'') 1 0 (NewWithoutCleanup 60)))"
proof -
  have c: "Set ''k'' (VString ''v'') 1 0 (NewWithoutCleanup 60)
             = \<lparr>items = [(''k'', \<lparr>item_value = VString ''v'', expiresAt = 1, item_size = 17\<rparr>)],
                defaultTTL = 60, maxItems = 500, maxMemory = 100 * 1024 * 1024, currentSize = 17\<rparr>"
    by (simp add: Set_def Let_def NewWithoutCleanup_def)
  show ?thesis
    by (simp add: c accounting_ok_def cleanup_pass_def After_def map_delete_def)
qed

text \<open>
  C4 on the code. With one expired and one live entry in the map, the sweep pass removes
  the expired entry and leaves \<open>currentSize\<close> at the sum of both sizes; \<open>evictExpired\<close>
  at the same instant removes the same entry and subtracts its size.
\<close>

theorem sweep_keeps_currentSize:
  "items (cleanup_pass 5 (Set ''live'' (VString ''v'') 100 0
            (Set ''dead'' (VString ''w'') 1 0 (NewWithoutCleanup 60))))
     = [(''live'', \<lparr>item_value = VString ''v'', expiresAt = 100, item_size = 17\<rparr>)]
   \<and> currentSize (cleanup_pass 5 (Set ''live'' (VString ''v'') 100 0
            (Set ''dead'' (VString ''w'') 1 0 (NewWithoutCleanup 60)))) = 34
   \<and> storedBytes (items (cleanup_pass 5 (Set ''live'' (VString ''v'') 100 0
            (Set ''dead'' (VString ''w'') 1 0 (NewWithoutCleanup 60))))) = 17
   \<and> currentSize (evictExpired 5 (Set ''live'' (VString ''v'') 100 0
            (Set ''dead'' (VString ''w'') 1 0 (NewWithoutCleanup 60)))) = 17"
proof -
  have c1: "Set ''dead'' (VString ''w'') 1 0 (NewWithoutCleanup 60)
             = \<lparr>items = [(''dead'', \<lparr>item_value = VString ''w'', expiresAt = 1, item_size = 17\<rparr>)],
                defaultTTL = 60, maxItems = 500, maxMemory = 100 * 1024 * 1024, currentSize = 17\<rparr>"
    by (simp add: Set_def Let_def NewWithoutCleanup_def)
  have c2: "Set ''live'' (VString ''v'') 100 0 (Set ''dead'' (VString ''w'') 1 0 (NewWithoutCleanup 60))
             = \<lparr>items = [(''dead'', \<lparr>item_value = VString ''w'', expiresAt = 1, item_size = 17\<rparr>),
                         (''live'', \<lparr>item_value = VString ''v'', expiresAt = 100, item_size = 17\<rparr>)],
                defaultTTL = 60, maxItems = 500, maxMemory = 100 * 1024 * 1024, currentSize = 34\<rparr>"
    by (simp add: c1) (simp add: Set_def Let_def)
  show ?thesis
    by (simp add: c2 cleanup_pass_def evictExpired_def After_def map_delete_def)
qed

subsection \<open>The exchange sort\<close>

lemma sort_inner_mset:
  "sort_inner x ys = (m, r) \<Longrightarrow> mset (m # r) = mset (x # ys)"
proof (induction x ys arbitrary: m r rule: sort_inner.induct)
  case (1 x)
  then show ?case by simp
next
  case (2 x y ys)
  show ?case
  proof (cases "After (expiresAt (snd x)) (expiresAt (snd y))")
    case True
    obtain m' r' where s: "sort_inner y ys = (m', r')" by (cases "sort_inner y ys")
    from "2.IH"(1) [OF True s] have "mset (m' # r') = mset (y # ys)" .
    moreover from "2.prems" True s have "m = m'" "r = x # r'" by simp_all
    ultimately show ?thesis by simp
  next
    case False
    obtain m' r' where s: "sort_inner x ys = (m', r')" by (cases "sort_inner x ys")
    from "2.IH"(2) [OF False s] have "mset (m' # r') = mset (x # ys)" .
    moreover from "2.prems" False s have "m = m'" "r = y # r'" by simp_all
    ultimately show ?thesis by simp
  qed
qed

lemma sort_inner_min:
  "sort_inner x ys = (m, r) \<Longrightarrow>
   expiresAt (snd m) \<le> expiresAt (snd x) \<and> (\<forall>y\<in>set r. expiresAt (snd m) \<le> expiresAt (snd y))"
proof (induction x ys arbitrary: m r rule: sort_inner.induct)
  case (1 x)
  then show ?case by simp
next
  case (2 x y ys)
  show ?case
  proof (cases "After (expiresAt (snd x)) (expiresAt (snd y))")
    case True
    obtain m' r' where s: "sort_inner y ys = (m', r')" by (cases "sort_inner y ys")
    from "2.IH"(1) [OF True s]
    have ih: "expiresAt (snd m') \<le> expiresAt (snd y)"
             "\<forall>z\<in>set r'. expiresAt (snd m') \<le> expiresAt (snd z)" by simp_all
    from "2.prems" True s have eq: "m = m'" "r = x # r'" by simp_all
    from True have "expiresAt (snd y) < expiresAt (snd x)" by (simp add: After_def)
    with ih eq show ?thesis by auto
  next
    case False
    obtain m' r' where s: "sort_inner x ys = (m', r')" by (cases "sort_inner x ys")
    from "2.IH"(2) [OF False s]
    have ih: "expiresAt (snd m') \<le> expiresAt (snd x)"
             "\<forall>z\<in>set r'. expiresAt (snd m') \<le> expiresAt (snd z)" by simp_all
    from "2.prems" False s have eq: "m = m'" "r = y # r'" by simp_all
    from False have "expiresAt (snd x) \<le> expiresAt (snd y)" by (simp add: After_def)
    with ih eq show ?thesis by auto
  qed
qed

lemma sortByExpiry_mset: "mset (sortByExpiry xs) = mset xs"
proof (induction xs rule: sortByExpiry.induct)
  case 1
  then show ?case by simp
next
  case (2 x xs)
  obtain m r where s: "sort_inner x xs = (m, r)" by (cases "sort_inner x xs")
  from "2.IH" [OF s [symmetric]] have "mset (sortByExpiry r) = mset r" .
  with sort_inner_mset [OF s] s show ?case by simp
qed

lemma sortByExpiry_set: "set (sortByExpiry xs) = set xs"
  using sortByExpiry_mset [of xs] by (metis set_mset_mset)

lemma sortByExpiry_length: "length (sortByExpiry xs) = length xs"
  using sortByExpiry_mset [of xs] by (metis size_mset)

lemma sortByExpiry_distinct: "distinct (sortByExpiry xs) = distinct xs"
  using sortByExpiry_mset [of xs] by (metis mset_eq_imp_distinct_iff)

lemma sortByExpiry_sorted:
  "sorted_wrt (\<lambda>a b. expiresAt (snd a) \<le> expiresAt (snd b)) (sortByExpiry xs)"
proof (induction xs rule: sortByExpiry.induct)
  case 1
  then show ?case by simp
next
  case (2 x xs)
  obtain m r where s: "sort_inner x xs = (m, r)" by (cases "sort_inner x xs")
  from "2.IH" [OF s [symmetric]]
  have "sorted_wrt (\<lambda>a b. expiresAt (snd a) \<le> expiresAt (snd b)) (sortByExpiry r)" .
  moreover from sort_inner_min [OF s]
  have "\<forall>y\<in>set (sortByExpiry r). expiresAt (snd m) \<le> expiresAt (snd y)"
    by (simp add: sortByExpiry_set)
  ultimately show ?case using s by simp
qed

lemma sortByExpiry_take_drop:
  assumes "x \<in> set (take n (sortByExpiry xs))" and "y \<in> set (drop n (sortByExpiry xs))"
  shows "expiresAt (snd x) \<le> expiresAt (snd y)"
proof -
  have "sorted_wrt (\<lambda>a b. expiresAt (snd a) \<le> expiresAt (snd b))
          (take n (sortByExpiry xs) @ drop n (sortByExpiry xs))"
    using sortByExpiry_sorted [of xs] by simp
  with assms show ?thesis unfolding sorted_wrt_append by blast
qed

subsection \<open>What the eviction loops remove\<close>

lemma filter_keys_subset:
  assumes "distinct (map fst xs)" and "set ps \<subseteq> set xs"
  shows "filter (\<lambda>q. fst q \<notin> fst ` set ps) xs = filter (\<lambda>q. q \<notin> set ps) xs"
proof (rule filter_cong [OF refl])
  fix q assume q: "q \<in> set xs"
  from assms(1) have inj: "inj_on fst (set xs)" by (simp add: distinct_map)
  show "(fst q \<notin> fst ` set ps) = (q \<notin> set ps)"
  proof
    assume "fst q \<notin> fst ` set ps"
    then show "q \<notin> set ps" by (auto simp: image_iff)
  next
    assume n: "q \<notin> set ps"
    show "fst q \<notin> fst ` set ps"
    proof
      assume "fst q \<in> fst ` set ps"
      then obtain p where p: "p \<in> set ps" "fst q = fst p" by (auto simp: image_iff)
      from p(1) assms(2) have "p \<in> set xs" by (rule subsetD [rotated])
      with inj q p(2) have "q = p" by (blast dest: inj_onD)
      with p(1) n show False by simp
    qed
  qed
qed

lemma distinct_keys_distinct: "distinct (map fst xs) \<Longrightarrow> distinct xs"
  by (simp add: distinct_map)

lemma storedBytes_mset:
  assumes "mset xs = mset ys"
  shows "storedBytes xs = storedBytes ys"
proof -
  have "mset (map (\<lambda>p. item_size (snd p)) xs) = mset (map (\<lambda>p. item_size (snd p)) ys)"
    by (simp add: assms)
  then have "sum_mset (mset (map (\<lambda>p. item_size (snd p)) xs))
          = sum_mset (mset (map (\<lambda>p. item_size (snd p)) ys))"
    by (simp only:)
  then show ?thesis by (simp only: sum_mset_sum_list storedBytes_def)
qed

lemma storedBytes_filter_split:
  "storedBytes xs = storedBytes (filter P xs) + storedBytes (filter (\<lambda>p. \<not> P p) xs)"
  by (induction xs) simp_all

lemma filter_in_distinct_sublist:
  assumes "distinct xs" and "distinct ps" and "set ps \<subseteq> set xs"
  shows "mset (filter (\<lambda>q. q \<in> set ps) xs) = mset ps"
proof -
  have d: "distinct (filter (\<lambda>q. q \<in> set ps) xs)" using assms(1) by simp
  have s: "set (filter (\<lambda>q. q \<in> set ps) xs) = set ps" using assms(3) by auto
  have "(set (filter (\<lambda>q. q \<in> set ps) xs) = set ps)
          = (mset (filter (\<lambda>q. q \<in> set ps) xs) = mset ps)"
    using d assms(2) by (rule set_eq_iff_mset_eq_distinct)
  with s show ?thesis by (simp only:)
qed

lemma evictOldest_loop_distinct:
  assumes "distinct (map fst (items c))" and "distinct ps" and "set ps \<subseteq> set (items c)"
  shows "items (evictOldest_loop ps c) = filter (\<lambda>q. q \<notin> set ps) (items c)"
    and "currentSize (evictOldest_loop ps c)
           = currentSize c - storedBytes (filter (\<lambda>q. q \<in> set ps) (items c))"
    and "accounting_ok c \<Longrightarrow> accounting_ok (evictOldest_loop ps c)"
proof -
  show i: "items (evictOldest_loop ps c) = filter (\<lambda>q. q \<notin> set ps) (items c)"
    by (simp add: evictOldest_loop_items filter_keys_subset [OF assms(1,3)])
  have "storedBytes (filter (\<lambda>q. q \<in> set ps) (items c)) = storedBytes ps"
    by (rule storedBytes_mset)
       (rule filter_in_distinct_sublist [OF distinct_keys_distinct [OF assms(1)] assms(2,3)])
  then show s: "currentSize (evictOldest_loop ps c)
           = currentSize c - storedBytes (filter (\<lambda>q. q \<in> set ps) (items c))"
    by (simp add: evictOldest_loop_currentSize)
  show "accounting_ok (evictOldest_loop ps c)" if "accounting_ok c"
    using that storedBytes_filter_split [of "items c" "\<lambda>q. q \<in> set ps"]
    by (simp add: accounting_ok_def i s)
qed

lemma evictOldest_set:
  assumes "distinct (map fst (items c))" and "0 < n"
  shows "items (evictOldest n c)
           = filter (\<lambda>q. q \<notin> set (take (nat n) (sortByExpiry (items c)))) (items c)"
    and "set (items (evictOldest n c)) = set (drop (nat n) (sortByExpiry (items c)))"
    and "length (items (evictOldest n c)) = length (items c) - nat n"
proof -
  let ?s = "sortByExpiry (items c)"
  have ds: "distinct ?s"
    using assms(1) by (simp add: sortByExpiry_distinct distinct_keys_distinct)
  have sub: "set (take (nat n) ?s) \<subseteq> set (items c)"
    using set_take_subset [of "nat n" ?s] by (simp add: sortByExpiry_set)
  show i: "items (evictOldest n c) = filter (\<lambda>q. q \<notin> set (take (nat n) ?s)) (items c)"
    using assms(2) evictOldest_loop_distinct(1) [OF assms(1) distinct_take [OF ds] sub]
    by (simp add: evictOldest_def)
  have "distinct (take (nat n) ?s @ drop (nat n) ?s)" using ds by simp
  then have disj: "set (take (nat n) ?s) \<inter> set (drop (nat n) ?s) = {}"
    unfolding distinct_append by blast
  have "set (take (nat n) ?s @ drop (nat n) ?s) = set (items c)"
    by (simp add: sortByExpiry_set)
  then have un: "set (take (nat n) ?s) \<union> set (drop (nat n) ?s) = set (items c)"
    unfolding set_append .
  from un disj show st: "set (items (evictOldest n c)) = set (drop (nat n) ?s)"
    by (auto simp: i)
  have "distinct (items (evictOldest n c))"
    using assms(1) by (simp add: i distinct_keys_distinct)
  then have "length (items (evictOldest n c)) = card (set (drop (nat n) ?s))"
    by (simp add: distinct_card st [symmetric])
  also have "\<dots> = length (drop (nat n) ?s)"
    using ds by (simp add: distinct_card)
  finally show "length (items (evictOldest n c)) = length (items c) - nat n"
    by (simp add: sortByExpiry_length)
qed

lemma evictOldest_nearest:
  assumes "one_entry_per_key c"
    and "distinct (map (\<lambda>p. expiresAt (snd p)) (items c))"
    and "0 < n" and "n \<le> int (length (items c))"
  shows "set (items (evictOldest n c)) \<subseteq> set (items c)
     \<and> length (items (evictOldest n c)) + nat n = length (items c)
     \<and> (\<forall>x\<in>set (items c) - set (items (evictOldest n c)).
          \<forall>y\<in>set (items (evictOldest n c)). expiresAt (snd x) < expiresAt (snd y))
     \<and> currentSize (evictOldest n c)
          = currentSize c
            - storedBytes (filter (\<lambda>p. p \<notin> set (items (evictOldest n c))) (items c))"
proof -
  let ?s = "sortByExpiry (items c)"
  let ?c' = "evictOldest n c"
  have dk: "distinct (map fst (items c))" using assms(1) by (simp add: one_entry_per_key_def)
  note ev = evictOldest_set [OF dk assms(3)]
  have ds: "distinct ?s" using dk by (simp add: sortByExpiry_distinct distinct_keys_distinct)
  have "set (take (nat n) ?s @ drop (nat n) ?s) = set (items c)"
    by (simp add: sortByExpiry_set)
  then have un: "set (take (nat n) ?s) \<union> set (drop (nat n) ?s) = set (items c)"
    unfolding set_append .
  have order: "expiresAt (snd x) < expiresAt (snd y)"
    if x: "x \<in> set (items c) - set (items ?c')" and y: "y \<in> set (items ?c')" for x y
  proof -
    from x un have xt: "x \<in> set (take (nat n) ?s)" by (auto simp: ev(2))
    from y have yd: "y \<in> set (drop (nat n) ?s)" by (simp add: ev(2))
    have le: "expiresAt (snd x) \<le> expiresAt (snd y)"
      by (rule sortByExpiry_take_drop [OF xt yd])
    from x y have "x \<noteq> y" by blast
    moreover from x have "x \<in> set (items c)" by simp
    moreover from y have "y \<in> set (items c)" by (simp add: ev(1))
    ultimately have "expiresAt (snd x) \<noteq> expiresAt (snd y)"
      using assms(2) by (auto simp: distinct_map inj_on_def)
    with le show ?thesis by simp
  qed
  have sub: "set (take (nat n) ?s) \<subseteq> set (items c)" using un by blast
  have removed: "filter (\<lambda>p. p \<notin> set (items ?c')) (items c)
                   = filter (\<lambda>p. p \<in> set (take (nat n) ?s)) (items c)"
    by (rule filter_cong [OF refl]) (auto simp: ev(1))
  have size: "currentSize ?c' = currentSize c
                - storedBytes (filter (\<lambda>p. p \<notin> set (items ?c')) (items c))"
    using assms(3) evictOldest_loop_distinct(2) [OF dk distinct_take [OF ds] sub]
    by (simp add: removed) (simp add: evictOldest_def)
  have len: "length (items ?c') + nat n = length (items c)"
    using assms(3,4) by (simp add: ev(3))
  from order size len show ?thesis by (auto simp: ev(1))
qed

lemma evictExpired_distinct:
  assumes "distinct (map fst (items c))"
  shows "items (evictExpired now c)
           = filter (\<lambda>p. \<not> After now (expiresAt (snd p))) (items c)"
    and "currentSize (evictExpired now c)
           = currentSize c - storedBytes (filter (\<lambda>p. After now (expiresAt (snd p))) (items c))"
    and "accounting_ok c \<Longrightarrow> accounting_ok (evictExpired now c)"
proof -
  let ?ps = "filter (\<lambda>p. After now (expiresAt (snd p))) (items c)"
  have d: "distinct ?ps" using assms by (simp add: distinct_keys_distinct)
  have sub: "set ?ps \<subseteq> set (items c)" by simp
  note loop = evictOldest_loop_distinct [OF assms d sub]
  have keep: "filter (\<lambda>q. q \<notin> set ?ps) (items c)
                = filter (\<lambda>p. \<not> After now (expiresAt (snd p))) (items c)"
    by (rule filter_cong [OF refl]) simp
  have gone: "filter (\<lambda>q. q \<in> set ?ps) (items c) = ?ps"
    by (rule filter_cong [OF refl]) simp
  show "items (evictExpired now c) = filter (\<lambda>p. \<not> After now (expiresAt (snd p))) (items c)"
    unfolding evictExpired_def evictExpired_loop_eq by (rule trans [OF loop(1) keep])
  show "currentSize (evictExpired now c) = currentSize c - storedBytes ?ps"
    unfolding evictExpired_def evictExpired_loop_eq by (simp only: loop(2) gone)
  show "accounting_ok (evictExpired now c)" if "accounting_ok c"
    using loop(3) [OF that] by (simp add: evictExpired_def evictExpired_loop_eq)
qed

lemma sortByExpiry_Cons:
  assumes "xs \<noteq> []"
  obtains m r where "sortByExpiry xs = m # r" and "m \<in> set xs"
    and "\<forall>y\<in>set xs. expiresAt (snd m) \<le> expiresAt (snd y)"
proof -
  from assms have "sortByExpiry xs \<noteq> []"
    using sortByExpiry_length [of xs] by auto
  then obtain m r where s: "sortByExpiry xs = m # r" by (cases "sortByExpiry xs") auto
  have st: "set xs = insert m (set r)"
    using sortByExpiry_set [of xs] by (simp add: s)
  from sortByExpiry_sorted [of xs] have "\<forall>y\<in>set r. expiresAt (snd m) \<le> expiresAt (snd y)"
    by (simp add: s)
  with st have "\<forall>y\<in>set xs. expiresAt (snd m) \<le> expiresAt (snd y)" by simp
  with s st that show thesis by blast
qed

lemma sortByExpiry_first:
  assumes "p \<in> set xs"
    and "\<forall>q\<in>set xs. q \<noteq> p \<longrightarrow> expiresAt (snd p) < expiresAt (snd q)"
  shows "take (Suc 0) (sortByExpiry xs) = [p]"
proof -
  from assms(1) have "xs \<noteq> []" by auto
  then obtain m r where s: "sortByExpiry xs = m # r" and m: "m \<in> set xs"
    and least: "\<forall>y\<in>set xs. expiresAt (snd m) \<le> expiresAt (snd y)"
    by (rule sortByExpiry_Cons)
  have "m = p"
  proof (rule ccontr)
    assume "m \<noteq> p"
    with assms(2) m have "expiresAt (snd p) < expiresAt (snd m)" by blast
    moreover from least assms(1) have "expiresAt (snd m) \<le> expiresAt (snd p)" by blast
    ultimately show False by simp
  qed
  with s show ?thesis by simp
qed

lemma storedBytes_filter_one:
  assumes "distinct xs" and "p \<in> set xs"
  shows "storedBytes (filter (\<lambda>q. q = p) xs) = item_size (snd p)"
    and "length (filter (\<lambda>q. q \<noteq> p) xs) + 1 = length xs"
proof -
  have "mset (filter (\<lambda>q. q \<in> set [p]) xs) = mset [p]"
    by (rule filter_in_distinct_sublist) (use assms in simp_all)
  then have m: "mset (filter (\<lambda>q. q = p) xs) = mset [p]" by simp
  from storedBytes_mset [OF m] show "storedBytes (filter (\<lambda>q. q = p) xs) = item_size (snd p)"
    by simp
  from m have "length (filter (\<lambda>q. q = p) xs) = 1" by (metis length_Cons list.size(3) size_mset One_nat_def)
  with sum_length_filter_compl [of "\<lambda>q. q = p" xs]
  show "length (filter (\<lambda>q. q \<noteq> p) xs) + 1 = length xs" by simp
qed

text \<open>
  The first stage of \<open>Set\<close> on a full map whose entry \<open>p\<close> expires strictly before all
  others, none of the others having expired: whether \<open>p\<close> itself has expired (and is
  purged) or not (and is evicted as the oldest), exactly \<open>p\<close> goes.
\<close>

lemma Set_capacity_full:
  assumes dk: "distinct (map fst (items c))"
    and full: "maxItems c = int (length (items c))"
    and p: "p \<in> set (items c)"
    and least: "\<forall>q\<in>set (items c). q \<noteq> p \<longrightarrow> expiresAt (snd p) < expiresAt (snd q)"
    and live: "\<forall>q\<in>set (items c). q \<noteq> p \<longrightarrow> \<not> After now (expiresAt (snd q))"
  shows "items (Set_capacity now c) = filter (\<lambda>q. q \<noteq> p) (items c)"
    and "currentSize (Set_capacity now c) = currentSize c - item_size (snd p)"
proof -
  let ?c' = "evictExpired now c"
  have d: "distinct (items c)" using dk by (rule distinct_keys_distinct)
  from p have pos: "0 < length (items c)" by (cases "items c") auto
  with full have hit: "maxItems c > 0 \<and> int (length (items c)) \<ge> maxItems c" by simp
  note one = storedBytes_filter_one [OF d p]
  have goal: "items (Set_capacity now c) = filter (\<lambda>q. q \<noteq> p) (items c)
              \<and> currentSize (Set_capacity now c) = currentSize c - item_size (snd p)"
  proof (cases "After now (expiresAt (snd p))")
    case True
    have keep: "filter (\<lambda>q. \<not> After now (expiresAt (snd q))) (items c)
                  = filter (\<lambda>q. q \<noteq> p) (items c)"
      by (rule filter_cong [OF refl]) (use True live in auto)
    have gone: "filter (\<lambda>q. After now (expiresAt (snd q))) (items c)
                  = filter (\<lambda>q. q = p) (items c)"
      by (rule filter_cong [OF refl]) (use True live in auto)
    have i: "items ?c' = filter (\<lambda>q. q \<noteq> p) (items c)"
      by (simp add: evictExpired_distinct(1) [OF dk] keep)
    have s: "currentSize ?c' = currentSize c - item_size (snd p)"
      by (simp add: evictExpired_distinct(2) [OF dk] gone one(1))
    have "\<not> int (length (items ?c')) \<ge> maxItems ?c'"
      using one(2) by (simp add: i evictExpired_fields full)
    with hit i s show ?thesis by (simp add: Set_capacity_def Let_def)
  next
    case False
    have keep: "filter (\<lambda>q. \<not> After now (expiresAt (snd q))) (items c) = items c"
      using False live by (auto simp: filter_id_conv)
    have gone: "filter (\<lambda>q. After now (expiresAt (snd q))) (items c) = []"
      using False live by (auto simp: filter_empty_conv)
    have i: "items ?c' = items c"
      by (simp add: evictExpired_distinct(1) [OF dk] keep)
    have s: "currentSize ?c' = currentSize c"
      by (simp add: evictExpired_distinct(2) [OF dk] gone)
    have dk': "distinct (map fst (items ?c'))" by (simp add: i dk)
    have ps: "set [p] \<subseteq> set (items ?c')" using p by (simp add: i)
    have first: "take (Suc 0) (sortByExpiry (items ?c')) = [p]"
      using sortByExpiry_first [OF p least] by (simp add: i)
    have ev: "evictOldest 1 ?c' = evictOldest_loop [p] ?c'"
      by (simp add: evictOldest_def first)
    have i2: "items (evictOldest 1 ?c') = filter (\<lambda>q. q \<noteq> p) (items c)"
      using evictOldest_loop_distinct(1) [OF dk' _ ps] by (simp add: ev i)
    have s2: "currentSize (evictOldest 1 ?c') = currentSize c - item_size (snd p)"
      using evictOldest_loop_distinct(2) [OF dk' _ ps] by (simp add: ev i s one(1))
    have "int (length (items ?c')) \<ge> maxItems ?c'"
      by (simp add: i evictExpired_fields full)
    moreover have "int (length (items ?c')) - maxItems ?c' + 1 = 1"
      by (simp add: i evictExpired_fields full)
    ultimately show ?thesis using hit i2 s2 by (simp add: Set_capacity_def Let_def)
  qed
  from goal show "items (Set_capacity now c) = filter (\<lambda>q. q \<noteq> p) (items c)" by simp
  from goal show "currentSize (Set_capacity now c) = currentSize c - item_size (snd p)" by simp
qed

lemma map_store_new: "k \<notin> fst ` set ys \<Longrightarrow> map_store k it ys = ys @ [(k, it)]"
  by (induction ys) auto

lemma Set_fresh_key:
  assumes "k \<notin> fst ` set (items c)" and "\<not> capacity_bound_hit c"
    and "maxMemory c > 0 \<longrightarrow> currentSize c + estimateSize v \<le> maxMemory c"
  shows "Set k v ttl now c
           = c\<lparr>items := items c @ [(k, newItem v ttl now c)],
                currentSize := currentSize c + estimateSize v\<rparr>"
proof -
  from assms(1) have none: "map_of (items c) k = None" by (simp add: map_of_eq_None_iff)
  then have old: "old_size k c = 0" by (simp add: old_size_def)
  with assms(3) have "\<not> memory_bound_hit k v c" by (auto simp: memory_bound_hit_def)
  from Set_no_bound [OF assms(2) this, of ttl now] show ?thesis
    by (simp add: old newItem_def map_store_new [OF assms(1)])
qed

lemma four_inserts_max_three:
  fixes d :: duration
  assumes keys: "distinct [k1, k2, k3, k4]"
    and e12: "expiresAt (newItem v1 ttl1 t1 (NewWithMaxItems d 3))
                < expiresAt (newItem v2 ttl2 t2 (NewWithMaxItems d 3))"
    and e23: "expiresAt (newItem v2 ttl2 t2 (NewWithMaxItems d 3))
                < expiresAt (newItem v3 ttl3 t3 (NewWithMaxItems d 3))"
    and live: "\<not> After t4 (expiresAt (newItem v2 ttl2 t2 (NewWithMaxItems d 3)))"
    and mem: "estimateSize v1 + estimateSize v2 + estimateSize v3 + estimateSize v4
                \<le> 100 * 1024 * 1024"
    and order: "mset xs = mset (items (Set k3 v3 ttl3 t3 (Set k2 v2 ttl2 t2
                                   (Set k1 v1 ttl1 t1 (NewWithMaxItems d 3)))))"
  shows "set (items (Set k4 v4 ttl4 t4
                  ((Set k3 v3 ttl3 t3 (Set k2 v2 ttl2 t2
                      (Set k1 v1 ttl1 t1 (NewWithMaxItems d 3))))\<lparr>items := xs\<rparr>)))
           = {(k2, newItem v2 ttl2 t2 (NewWithMaxItems d 3)),
              (k3, newItem v3 ttl3 t3 (NewWithMaxItems d 3)),
              (k4, newItem v4 ttl4 t4 (NewWithMaxItems d 3))}
     \<and> length (items (Set k4 v4 ttl4 t4
                  ((Set k3 v3 ttl3 t3 (Set k2 v2 ttl2 t2
                      (Set k1 v1 ttl1 t1 (NewWithMaxItems d 3))))\<lparr>items := xs\<rparr>))) = 3"
proof -
  let ?new = "NewWithMaxItems d 3"
  let ?i1 = "newItem v1 ttl1 t1 ?new" and ?i2 = "newItem v2 ttl2 t2 ?new"
  let ?i3 = "newItem v3 ttl3 t3 ?new" and ?i4 = "newItem v4 ttl4 t4 ?new"
  let ?s1 = "estimateSize v1" and ?s2 = "estimateSize v2"
  let ?s3 = "estimateSize v3" and ?s4 = "estimateSize v4"
  let ?M = "104857600 :: int"
  note nn = estimateSize_nonneg [of v1] estimateSize_nonneg [of v2]
            estimateSize_nonneg [of v3] estimateSize_nonneg [of v4]
  have c1: "Set k1 v1 ttl1 t1 ?new
              = \<lparr>items = [(k1, ?i1)], defaultTTL = d, maxItems = 3, maxMemory = ?M,
                 currentSize = ?s1\<rparr>"
    using mem nn
    by (subst Set_fresh_key)
       (auto simp: NewWithMaxItems_def capacity_bound_hit_def newItem_def)
  have c2: "Set k2 v2 ttl2 t2 (Set k1 v1 ttl1 t1 ?new)
              = \<lparr>items = [(k1, ?i1), (k2, ?i2)], defaultTTL = d, maxItems = 3, maxMemory = ?M,
                 currentSize = ?s1 + ?s2\<rparr>"
    unfolding c1 using mem nn keys
    by (subst Set_fresh_key)
       (auto simp: NewWithMaxItems_def capacity_bound_hit_def newItem_def)
  have c3: "Set k3 v3 ttl3 t3 (Set k2 v2 ttl2 t2 (Set k1 v1 ttl1 t1 ?new))
              = \<lparr>items = [(k1, ?i1), (k2, ?i2), (k3, ?i3)], defaultTTL = d, maxItems = 3,
                 maxMemory = ?M, currentSize = ?s1 + ?s2 + ?s3\<rparr>"
    unfolding c2 using mem nn keys
    by (subst Set_fresh_key)
       (auto simp: NewWithMaxItems_def capacity_bound_hit_def newItem_def)
  let ?c = "\<lparr>items = xs, defaultTTL = d, maxItems = 3, maxMemory = ?M,
             currentSize = ?s1 + ?s2 + ?s3\<rparr>"
  let ?p1 = "(k1, ?i1)"
  from order have ms: "mset xs = mset [(k1, ?i1), (k2, ?i2), (k3, ?i3)]" by (simp add: c3)
  have sx: "set xs = {(k1, ?i1), (k2, ?i2), (k3, ?i3)}"
    using mset_eq_setD [OF ms] by simp
  have lx: "length xs = 3" using mset_eq_length [OF ms] by simp
  have "mset (map fst xs) = mset (map fst [(k1, ?i1), (k2, ?i2), (k3, ?i3)])"
    using ms by (metis mset_map)
  then have "distinct (map fst xs) = distinct (map fst [(k1, ?i1), (k2, ?i2), (k3, ?i3)])"
    by (rule mset_eq_imp_distinct_iff)
  with keys have dk: "distinct (map fst xs)" by simp
  have e13: "expiresAt ?i1 < expiresAt ?i3" using e12 e23 by simp
  have live3: "\<not> After t4 (expiresAt ?i3)" using live e23 by (simp add: After_def)
  have cap: "items (Set_capacity t4 ?c) = filter (\<lambda>q. q \<noteq> ?p1) xs"
            "currentSize (Set_capacity t4 ?c) = ?s2 + ?s3"
    using Set_capacity_full [of ?c ?p1 t4] dk lx sx e12 e13 live live3
    by (auto simp: newItem_def)
  have k4: "k4 \<notin> fst ` set (filter (\<lambda>q. q \<noteq> ?p1) xs)"
    using keys by (auto simp: sx)
  then have none: "map_of (items (Set_capacity t4 ?c)) k4 = None"
    by (simp add: cap map_of_eq_None_iff)
  then have rep: "Set_replace k4 (Set_capacity t4 ?c) = Set_capacity t4 ?c"
    by (simp add: Set_replace_def)
  have memo: "Set_memory ?s4 t4 (Set_capacity t4 ?c) = Set_capacity t4 ?c"
    using mem nn by (simp add: Set_memory_def cap Set_capacity_fields)
  have fin: "items (Set k4 v4 ttl4 t4 ?c) = filter (\<lambda>q. q \<noteq> ?p1) xs @ [(k4, ?i4)]"
    by (simp add: Set_stages Let_def rep memo cap map_store_new [OF k4])
       (simp add: newItem_def NewWithMaxItems_def)
  have ne: "(k2, ?i2) \<noteq> ?p1" "(k3, ?i3) \<noteq> ?p1" using keys by auto
  have dx: "distinct xs" using dk by (rule distinct_keys_distinct)
  have p1: "?p1 \<in> set xs" by (simp add: sx)
  have len: "length (filter (\<lambda>q. q \<noteq> ?p1) xs) = 2"
    using storedBytes_filter_one(2) [OF dx p1] lx by simp
  have "set (items (Set k4 v4 ttl4 t4 ?c)) = {(k2, ?i2), (k3, ?i3), (k4, ?i4)}"
    using ne by (auto simp: fin sx)
  moreover have "length (items (Set k4 v4 ttl4 t4 ?c)) = 3"
    by (simp add: fin len)
  ultimately show ?thesis by (simp add: c3)
qed

text \<open>
  C5, as the code has it. First part: \<open>evictOldest n\<close> on a map with one entry per key and
  pairwise distinct expirations, for \<open>0 < n \<le> len\<close>, removes exactly \<open>n\<close> entries, every
  removed entry expires strictly before every entry that stays, and the running total
  goes down by the sizes of the removed entries. This holds for every order in which the
  map is visited.
  Second part: on \<open>NewWithMaxItems d 3\<close>, four \<open>Set\<close>s of distinct keys with increasing
  expirations, where the second entry has not expired at the fourth \<open>Set\<close> (\<open>Set\<close> purges
  expired entries before it evicts by count) and the four estimated sizes together are
  within the memory bound of 100 MB (beyond it \<open>Set\<close> evicts for memory as well). Whatever
  order \<open>xs\<close> the map of the first three is visited in by the fourth \<open>Set\<close>, exactly the
  entries of the second, third and fourth \<open>Set\<close> remain, and the first, which is gone,
  expires before each of them.
\<close>

theorem eviction_ordering:
  "(one_entry_per_key c \<and> distinct (map (\<lambda>p. expiresAt (snd p)) (items c))
      \<and> 0 < n \<and> n \<le> int (length (items c))
    \<longrightarrow> set (items (evictOldest n c)) \<subseteq> set (items c)
        \<and> length (items (evictOldest n c)) + nat n = length (items c)
        \<and> (\<forall>x\<in>set (items c) - set (items (evictOldest n c)).
             \<forall>y\<in>set (items (evictOldest n c)). expiresAt (snd x) < expiresAt (snd y))
        \<and> currentSize (evictOldest n c)
             = currentSize c
               - storedBytes (filter (\<lambda>p. p \<notin> set (items (evictOldest n c))) (items c)))
   \<and> (distinct [k1, k2, k3, k4]
      \<and> expiresAt (newItem v1 ttl1 t1 (NewWithMaxItems d 3))
          < expiresAt (newItem v2 ttl2 t2 (NewWithMaxItems d 3))
      \<and> expiresAt (newItem v2 ttl2 t2 (NewWithMaxItems d 3))
          < expiresAt (newItem v3 ttl3 t3 (NewWithMaxItems d 3))
      \<and> expiresAt (newItem v3 ttl3 t3 (NewWithMaxItems d 3))
          < expiresAt (newItem v4 ttl4 t4 (NewWithMaxItems d 3))
      \<and> \<not> After t4 (expiresAt (newItem v2 ttl2 t2 (NewWithMaxItems d 3)))
      \<and> estimateSize v1 + estimateSize v2 + estimateSize v3 + estimateSize v4
          \<le> 100 * 1024 * 1024
      \<and> mset xs = mset (items (Set k3 v3 ttl3 t3 (Set k2 v2 ttl2 t2
                               (Set k1 v1 ttl1 t1 (NewWithMaxItems d 3)))))
    \<longrightarrow> set (items (Set k4 v4 ttl4 t4
                  ((Set k3 v3 ttl3 t3 (Set k2 v2 ttl2 t2
                      (Set k1 v1 ttl1 t1 (NewWithMaxItems d 3))))\<lparr>items := xs\<rparr>)))
           = {(k2, newItem v2 ttl2 t2 (NewWithMaxItems d 3)),
              (k3, newItem v3 ttl3 t3 (NewWithMaxItems d 3)),
              (k4, newItem v4 ttl4 t4 (NewWithMaxItems d 3))}
        \<and> length (items (Set k4 v4 ttl4 t4
                  ((Set k3 v3 ttl3 t3 (Set k2 v2 ttl2 t2
                      (Set k1 v1 ttl1 t1 (NewWithMaxItems d 3))))\<lparr>items := xs\<rparr>))) = 3
        \<and> (\<forall>q\<in>set (items (Set k4 v4 ttl4 t4
                  ((Set k3 v3 ttl3 t3 (Set k2 v2 ttl2 t2
                      (Set k1 v1 ttl1 t1 (NewWithMaxItems d 3))))\<lparr>items := xs\<rparr>))).
             expiresAt (newItem v1 ttl1 t1 (NewWithMaxItems d 3)) < expiresAt (snd q)))"
proof (intro conjI impI)
  assume h: "one_entry_per_key c \<and> distinct (map (\<lambda>p. expiresAt (snd p)) (items c))
      \<and> 0 < n \<and> n \<le> int (length (items c))"
  then have g: "set (items (evictOldest n c)) \<subseteq> set (items c)
     \<and> length (items (evictOldest n c)) + nat n = length (items c)
     \<and> (\<forall>x\<in>set (items c) - set (items (evictOldest n c)).
          \<forall>y\<in>set (items (evictOldest n c)). expiresAt (snd x) < expiresAt (snd y))
     \<and> currentSize (evictOldest n c)
          = currentSize c
            - storedBytes (filter (\<lambda>p. p \<notin> set (items (evictOldest n c))) (items c))"
    by (intro evictOldest_nearest) simp_all
  from g show "set (items (evictOldest n c)) \<subseteq> set (items c)" by (rule conjunct1)
  from g show "length (items (evictOldest n c)) + nat n = length (items c)" by simp
  from g show "\<forall>x\<in>set (items c) - set (items (evictOldest n c)).
          \<forall>y\<in>set (items (evictOldest n c)). expiresAt (snd x) < expiresAt (snd y)" by simp
  from g show "currentSize (evictOldest n c)
          = currentSize c
            - storedBytes (filter (\<lambda>p. p \<notin> set (items (evictOldest n c))) (items c))" by simp
next
  let ?new = "NewWithMaxItems d 3"
  let ?fin = "Set k4 v4 ttl4 t4
                  ((Set k3 v3 ttl3 t3 (Set k2 v2 ttl2 t2
                      (Set k1 v1 ttl1 t1 ?new)))\<lparr>items := xs\<rparr>)"
  assume h: "distinct [k1, k2, k3, k4]
      \<and> expiresAt (newItem v1 ttl1 t1 ?new) < expiresAt (newItem v2 ttl2 t2 ?new)
      \<and> expiresAt (newItem v2 ttl2 t2 ?new) < expiresAt (newItem v3 ttl3 t3 ?new)
      \<and> expiresAt (newItem v3 ttl3 t3 ?new) < expiresAt (newItem v4 ttl4 t4 ?new)
      \<and> \<not> After t4 (expiresAt (newItem v2 ttl2 t2 ?new))
      \<and> estimateSize v1 + estimateSize v2 + estimateSize v3 + estimateSize v4
          \<le> 100 * 1024 * 1024
      \<and> mset xs = mset (items (Set k3 v3 ttl3 t3 (Set k2 v2 ttl2 t2
                               (Set k1 v1 ttl1 t1 ?new))))"
  then have g: "set (items ?fin)
           = {(k2, newItem v2 ttl2 t2 ?new), (k3, newItem v3 ttl3 t3 ?new),
              (k4, newItem v4 ttl4 t4 ?new)}
     \<and> length (items ?fin) = 3"
    by (intro four_inserts_max_three) (simp_all del: distinct.simps)
  from g show "set (items ?fin)
           = {(k2, newItem v2 ttl2 t2 ?new), (k3, newItem v3 ttl3 t3 ?new),
              (k4, newItem v4 ttl4 t4 ?new)}" by (rule conjunct1)
  from g show "length (items ?fin) = 3" by (rule conjunct2)
  from g h show "\<forall>q\<in>set (items ?fin).
             expiresAt (newItem v1 ttl1 t1 ?new) < expiresAt (snd q)"
    by auto
qed

theorem eviction_ordering_witness:
  "(one_entry_per_key
    \<lparr>items = [(''a'', \<lparr>item_value = VInt 1, expiresAt = 30, item_size = 16\<rparr>),
              (''b'', \<lparr>item_value = VInt 2, expiresAt = 10, item_size = 16\<rparr>),
              (''c'', \<lparr>item_value = VInt 3, expiresAt = 20, item_size = 16\<rparr>)],
     defaultTTL = 60, maxItems = 3, maxMemory = 0, currentSize = 48\<rparr>)
   \<and> (distinct (map (\<lambda>p. expiresAt (snd p)) (items
    \<lparr>items = [(''a'', \<lparr>item_value = VInt 1, expiresAt = 30, item_size = 16\<rparr>),
              (''b'', \<lparr>item_value = VInt 2, expiresAt = 10, item_size = 16\<rparr>),
              (''c'', \<lparr>item_value = VInt 3, expiresAt = 20, item_size = 16\<rparr>)],
     defaultTTL = 60, maxItems = 3, maxMemory = 0, currentSize = 48\<rparr>)))
   \<and> ((0::int) < 2)
   \<and> ((2::int) \<le> int (length (items
    \<lparr>items = [(''a'', \<lparr>item_value = VInt 1, expiresAt = 30, item_size = 16\<rparr>),
              (''b'', \<lparr>item_value = VInt 2, expiresAt = 10, item_size = 16\<rparr>),
              (''c'', \<lparr>item_value = VInt 3, expiresAt = 20, item_size = 16\<rparr>)],
     defaultTTL = 60, maxItems = 3, maxMemory = 0, currentSize = 48\<rparr>)))
   \<and> (distinct [''k1'', ''k2'', ''k3'', ''k4''])
   \<and> (expiresAt (newItem (VInt 1) 10 0 (NewWithMaxItems 60 3)) < expiresAt (newItem (VInt 2) 20 0 (NewWithMaxItems 60 3)))
   \<and> (expiresAt (newItem (VInt 2) 20 0 (NewWithMaxItems 60 3)) < expiresAt (newItem (VInt 3) 30 0 (NewWithMaxItems 60 3)))
   \<and> (expiresAt (newItem (VInt 3) 30 0 (NewWithMaxItems 60 3)) < expiresAt (newItem (VInt 4) 40 5 (NewWithMaxItems 60 3)))
   \<and> (\<not> After 5 (expiresAt (newItem (VInt 2) 20 0 (NewWithMaxItems 60 3))))
   \<and> (estimateSize (VInt 1) + estimateSize (VInt 2) + estimateSize (VInt 3) + estimateSize (VInt 4)
      \<le> 100 * 1024 * 1024)
   \<and> (mset [(''k3'', newItem (VInt 3) 30 0 (NewWithMaxItems 60 3)),
      (''k1'', newItem (VInt 1) 10 0 (NewWithMaxItems 60 3)),
      (''k2'', newItem (VInt 2) 20 0 (NewWithMaxItems 60 3))]
    = mset (items (Set ''k3'' (VInt 3) 30 0 (Set ''k2'' (VInt 2) 20 0 (Set ''k1'' (VInt 1) 10 0 (NewWithMaxItems 60 3))))))
   \<and> (length (items (evictOldest 2
    \<lparr>items = [(''a'', \<lparr>item_value = VInt 1, expiresAt = 30, item_size = 16\<rparr>),
              (''b'', \<lparr>item_value = VInt 2, expiresAt = 10, item_size = 16\<rparr>),
              (''c'', \<lparr>item_value = VInt 3, expiresAt = 20, item_size = 16\<rparr>)],
     defaultTTL = 60, maxItems = 3, maxMemory = 0, currentSize = 48\<rparr>)) + nat 2
    = length (items
    \<lparr>items = [(''a'', \<lparr>item_value = VInt 1, expiresAt = 30, item_size = 16\<rparr>),
              (''b'', \<lparr>item_value = VInt 2, expiresAt = 10, item_size = 16\<rparr>),
              (''c'', \<lparr>item_value = VInt 3, expiresAt = 20, item_size = 16\<rparr>)],
     defaultTTL = 60, maxItems = 3, maxMemory = 0, currentSize = 48\<rparr>))
   \<and> (set (items (Set ''k4'' (VInt 4) 40 5
      ((Set ''k3'' (VInt 3) 30 0 (Set ''k2'' (VInt 2) 20 0 (Set ''k1'' (VInt 1) 10 0 (NewWithMaxItems 60 3))))
       \<lparr>items := [(''k3'', newItem (VInt 3) 30 0 (NewWithMaxItems 60 3)),
      (''k1'', newItem (VInt 1) 10 0 (NewWithMaxItems 60 3)),
      (''k2'', newItem (VInt 2) 20 0 (NewWithMaxItems 60 3))]\<rparr>)))
    = {(''k2'', newItem (VInt 2) 20 0 (NewWithMaxItems 60 3)), (''k3'', newItem (VInt 3) 30 0 (NewWithMaxItems 60 3)),
       (''k4'', newItem (VInt 4) 40 5 (NewWithMaxItems 60 3))})
   \<and> (length (items (Set ''k4'' (VInt 4) 40 5
      ((Set ''k3'' (VInt 3) 30 0 (Set ''k2'' (VInt 2) 20 0 (Set ''k1'' (VInt 1) 10 0 (NewWithMaxItems 60 3))))
       \<lparr>items := [(''k3'', newItem (VInt 3) 30 0 (NewWithMaxItems 60 3)),
      (''k1'', newItem (VInt 1) 10 0 (NewWithMaxItems 60 3)),
      (''k2'', newItem (VInt 2) 20 0 (NewWithMaxItems 60 3))]\<rparr>))) = 3)
   \<and> (items (evictOldest 2
    \<lparr>items = [(''a'', \<lparr>item_value = VInt 1, expiresAt = 30, item_size = 16\<rparr>),
              (''b'', \<lparr>item_value = VInt 2, expiresAt = 10, item_size = 16\<rparr>),
              (''c'', \<lparr>item_value = VInt 3, expiresAt = 20, item_size = 16\<rparr>)],
     defaultTTL = 60, maxItems = 3, maxMemory = 0, currentSize = 48\<rparr>)
    = [(''a'', \<lparr>item_value = VInt 1, expiresAt = 30, item_size = 16\<rparr>)])"
proof -
  have c3: "(Set ''k3'' (VInt 3) 30 0 (Set ''k2'' (VInt 2) 20 0 (Set ''k1'' (VInt 1) 10 0 (NewWithMaxItems 60 3))))
      = \<lparr>items = [(''k1'', newItem (VInt 1) 10 0 (NewWithMaxItems 60 3)), (''k2'', newItem (VInt 2) 20 0 (NewWithMaxItems 60 3)),
                  (''k3'', newItem (VInt 3) 30 0 (NewWithMaxItems 60 3))],
         defaultTTL = 60, maxItems = 3, maxMemory = 104857600, currentSize = 48\<rparr>"
    by (simp add: Set_def Let_def NewWithMaxItems_def newItem_def)
  have a1: "one_entry_per_key
    \<lparr>items = [(''a'', \<lparr>item_value = VInt 1, expiresAt = 30, item_size = 16\<rparr>),
              (''b'', \<lparr>item_value = VInt 2, expiresAt = 10, item_size = 16\<rparr>),
              (''c'', \<lparr>item_value = VInt 3, expiresAt = 20, item_size = 16\<rparr>)],
     defaultTTL = 60, maxItems = 3, maxMemory = 0, currentSize = 48\<rparr>"
    by (simp add: one_entry_per_key_def)
  have a2: "distinct (map (\<lambda>p. expiresAt (snd p)) (items
    \<lparr>items = [(''a'', \<lparr>item_value = VInt 1, expiresAt = 30, item_size = 16\<rparr>),
              (''b'', \<lparr>item_value = VInt 2, expiresAt = 10, item_size = 16\<rparr>),
              (''c'', \<lparr>item_value = VInt 3, expiresAt = 20, item_size = 16\<rparr>)],
     defaultTTL = 60, maxItems = 3, maxMemory = 0, currentSize = 48\<rparr>))"
    by simp
  have a3: "(0::int) < 2"
    by simp
  have a4: "(2::int) \<le> int (length (items
    \<lparr>items = [(''a'', \<lparr>item_value = VInt 1, expiresAt = 30, item_size = 16\<rparr>),
              (''b'', \<lparr>item_value = VInt 2, expiresAt = 10, item_size = 16\<rparr>),
              (''c'', \<lparr>item_value = VInt 3, expiresAt = 20, item_size = 16\<rparr>)],
     defaultTTL = 60, maxItems = 3, maxMemory = 0, currentSize = 48\<rparr>))"
    by simp
  have b1: "distinct [''k1'', ''k2'', ''k3'', ''k4'']"
    by simp
  have b2: "expiresAt (newItem (VInt 1) 10 0 (NewWithMaxItems 60 3)) < expiresAt (newItem (VInt 2) 20 0 (NewWithMaxItems 60 3))"
    by (simp add: newItem_def)
  have b3: "expiresAt (newItem (VInt 2) 20 0 (NewWithMaxItems 60 3)) < expiresAt (newItem (VInt 3) 30 0 (NewWithMaxItems 60 3))"
    by (simp add: newItem_def)
  have b4: "expiresAt (newItem (VInt 3) 30 0 (NewWithMaxItems 60 3)) < expiresAt (newItem (VInt 4) 40 5 (NewWithMaxItems 60 3))"
    by (simp add: newItem_def)
  have b5: "\<not> After 5 (expiresAt (newItem (VInt 2) 20 0 (NewWithMaxItems 60 3)))"
    by (simp add: newItem_def After_def)
  have b6: "estimateSize (VInt 1) + estimateSize (VInt 2) + estimateSize (VInt 3) + estimateSize (VInt 4)
      \<le> 100 * 1024 * 1024"
    by simp
  have b7: "mset [(''k3'', newItem (VInt 3) 30 0 (NewWithMaxItems 60 3)),
      (''k1'', newItem (VInt 1) 10 0 (NewWithMaxItems 60 3)),
      (''k2'', newItem (VInt 2) 20 0 (NewWithMaxItems 60 3))]
    = mset (items (Set ''k3'' (VInt 3) 30 0 (Set ''k2'' (VInt 2) 20 0 (Set ''k1'' (VInt 1) 10 0 (NewWithMaxItems 60 3)))))"
    by (simp add: c3)
  have ev: "items (evictOldest 2
    \<lparr>items = [(''a'', \<lparr>item_value = VInt 1, expiresAt = 30, item_size = 16\<rparr>),
              (''b'', \<lparr>item_value = VInt 2, expiresAt = 10, item_size = 16\<rparr>),
              (''c'', \<lparr>item_value = VInt 3, expiresAt = 20, item_size = 16\<rparr>)],
     defaultTTL = 60, maxItems = 3, maxMemory = 0, currentSize = 48\<rparr>)
    = [(''a'', \<lparr>item_value = VInt 1, expiresAt = 30, item_size = 16\<rparr>)]"
    by (simp add: evictOldest_def After_def map_delete_def numeral_2_eq_2)
  note inst = eviction_ordering [where c = "\<lparr>items = [(''a'', \<lparr>item_value = VInt 1, expiresAt = 30, item_size = 16\<rparr>),
              (''b'', \<lparr>item_value = VInt 2, expiresAt = 10, item_size = 16\<rparr>),
              (''c'', \<lparr>item_value = VInt 3, expiresAt = 20, item_size = 16\<rparr>)],
     defaultTTL = 60, maxItems = 3, maxMemory = 0, currentSize = 48\<rparr>"
      and n = 2 and d = 60
      and ?k1.0 = "''k1''" and ?k2.0 = "''k2''" and ?k3.0 = "''k3''" and ?k4.0 = "''k4''"
      and ?v1.0 = "VInt 1" and ?v2.0 = "VInt 2" and ?v3.0 = "VInt 3" and ?v4.0 = "VInt 4"
      and ?ttl1.0 = 10 and ?ttl2.0 = 20 and ?ttl3.0 = 30 and ?ttl4.0 = 40
      and ?t1.0 = 0 and ?t2.0 = 0 and ?t3.0 = 0 and ?t4.0 = 5
      and xs = "[(''k3'', newItem (VInt 3) 30 0 (NewWithMaxItems 60 3)),
      (''k1'', newItem (VInt 1) 10 0 (NewWithMaxItems 60 3)),
      (''k2'', newItem (VInt 2) 20 0 (NewWithMaxItems 60 3))]"]
  from inst a1 a2 a3 a4 have r1: "length (items (evictOldest 2
    \<lparr>items = [(''a'', \<lparr>item_value = VInt 1, expiresAt = 30, item_size = 16\<rparr>),
              (''b'', \<lparr>item_value = VInt 2, expiresAt = 10, item_size = 16\<rparr>),
              (''c'', \<lparr>item_value = VInt 3, expiresAt = 20, item_size = 16\<rparr>)],
     defaultTTL = 60, maxItems = 3, maxMemory = 0, currentSize = 48\<rparr>)) + nat 2
    = length (items
    \<lparr>items = [(''a'', \<lparr>item_value = VInt 1, expiresAt = 30, item_size = 16\<rparr>),
              (''b'', \<lparr>item_value = VInt 2, expiresAt = 10, item_size = 16\<rparr>),
              (''c'', \<lparr>item_value = VInt 3, expiresAt = 20, item_size = 16\<rparr>)],
     defaultTTL = 60, maxItems = 3, maxMemory = 0, currentSize = 48\<rparr>)"
    by blast
  from inst b1 b2 b3 b4 b5 b6 b7 have r23: "(set (items (Set ''k4'' (VInt 4) 40 5
      ((Set ''k3'' (VInt 3) 30 0 (Set ''k2'' (VInt 2) 20 0 (Set ''k1'' (VInt 1) 10 0 (NewWithMaxItems 60 3))))
       \<lparr>items := [(''k3'', newItem (VInt 3) 30 0 (NewWithMaxItems 60 3)),
      (''k1'', newItem (VInt 1) 10 0 (NewWithMaxItems 60 3)),
      (''k2'', newItem (VInt 2) 20 0 (NewWithMaxItems 60 3))]\<rparr>)))
    = {(''k2'', newItem (VInt 2) 20 0 (NewWithMaxItems 60 3)), (''k3'', newItem (VInt 3) 30 0 (NewWithMaxItems 60 3)),
       (''k4'', newItem (VInt 4) 40 5 (NewWithMaxItems 60 3))})
    \<and> (length (items (Set ''k4'' (VInt 4) 40 5
      ((Set ''k3'' (VInt 3) 30 0 (Set ''k2'' (VInt 2) 20 0 (Set ''k1'' (VInt 1) 10 0 (NewWithMaxItems 60 3))))
       \<lparr>items := [(''k3'', newItem (VInt 3) 30 0 (NewWithMaxItems 60 3)),
      (''k1'', newItem (VInt 1) 10 0 (NewWithMaxItems 60 3)),
      (''k2'', newItem (VInt 2) 20 0 (NewWithMaxItems 60 3))]\<rparr>))) = 3)"
    by blast
  from a1 a2 a3 a4 b1 b2 b3 b4 b5 b6 b7 r1 r23 ev show ?thesis by (intro conjI) blast+
qed

text \<open>
  Four distinct keys with the increasing expirations 10, 20, 30 and 65 on
  \<open>NewWithMaxItems 60 3\<close>, the fourth stored at instant 25: the first two entries have
  expired by then and are purged, so two entries remain, not three. And with the fourth
  value a slice of 13107200 elements, estimated at 24 bytes more than the memory bound of
  100 MB, stored at instant 5: the eviction for memory removes the second and third entry
  as well, and one entry remains.
\<close>

theorem eviction_ordering_counterexample:
  "items (Set ''k4'' (VInt 4) 40 25
      (Set ''k3'' (VInt 3) 30 0 (Set ''k2'' (VInt 2) 20 0
        (Set ''k1'' (VInt 1) 10 0 (NewWithMaxItems 60 3)))))
     = [(''k3'', \<lparr>item_value = VInt 3, expiresAt = 30, item_size = 16\<rparr>),
        (''k4'', \<lparr>item_value = VInt 4, expiresAt = 65, item_size = 16\<rparr>)]
   \<and> items (Set ''k4'' (VSlice False (replicate 13107200 VNil)) 40 5
      (Set ''k3'' (VInt 3) 30 0 (Set ''k2'' (VInt 2) 20 0
        (Set ''k1'' (VInt 1) 10 0 (NewWithMaxItems 60 3)))))
     = [(''k4'', \<lparr>item_value = VSlice False (replicate 13107200 VNil), expiresAt = 45,
                   item_size = 104857624\<rparr>)]"
proof -
  have c3: "Set ''k3'' (VInt 3) 30 0 (Set ''k2'' (VInt 2) 20 0
        (Set ''k1'' (VInt 1) 10 0 (NewWithMaxItems 60 3)))
      = \<lparr>items = [(''k1'', \<lparr>item_value = VInt 1, expiresAt = 10, item_size = 16\<rparr>),
                  (''k2'', \<lparr>item_value = VInt 2, expiresAt = 20, item_size = 16\<rparr>),
                  (''k3'', \<lparr>item_value = VInt 3, expiresAt = 30, item_size = 16\<rparr>)],
         defaultTTL = 60, maxItems = 3, maxMemory = 104857600, currentSize = 48\<rparr>"
    by (simp add: Set_def Let_def NewWithMaxItems_def)
  have sz: "estimateSize (VSlice False (replicate 13107200 VNil)) = 104857624"
    by (simp add: Let_def)
  have first: "items (Set ''k4'' (VInt 4) 40 25
      (Set ''k3'' (VInt 3) 30 0 (Set ''k2'' (VInt 2) 20 0
        (Set ''k1'' (VInt 1) 10 0 (NewWithMaxItems 60 3)))))
     = [(''k3'', \<lparr>item_value = VInt 3, expiresAt = 30, item_size = 16\<rparr>),
        (''k4'', \<lparr>item_value = VInt 4, expiresAt = 65, item_size = 16\<rparr>)]"
    unfolding c3
    by (simp add: Set_def Let_def evictExpired_def evictOldest_def After_def map_delete_def)
  have second: "items (Set ''k4'' (VSlice False (replicate 13107200 VNil)) 40 5
      (Set ''k3'' (VInt 3) 30 0 (Set ''k2'' (VInt 2) 20 0
        (Set ''k1'' (VInt 1) 10 0 (NewWithMaxItems 60 3)))))
     = [(''k4'', \<lparr>item_value = VSlice False (replicate 13107200 VNil), expiresAt = 45,
                   item_size = 104857624\<rparr>)]"
    unfolding c3
    by (simp add: Set_def Let_def sz evictExpired_def evictOldest_def evictToFitMemory_def
                  evictOldestBySize_def After_def map_delete_def del: estimateSize.simps)
  from first second show ?thesis by (rule conjI)
qed

subsection \<open>Eviction to fit the memory bound\<close>

















subsection \<open>Where the running total is kept, and a second place where it is not\<close>

lemma Clear_accounting: "accounting_ok (Clear c)"
  by (simp add: Clear_def accounting_ok_def)

lemma storedBytes_map_delete:
  "distinct (map fst xs) \<Longrightarrow> map_of xs k = Some it \<Longrightarrow>
   storedBytes (map_delete k xs) = storedBytes xs - item_size it"
proof (induction xs)
  case Nil
  then show ?case by simp
next
  case (Cons p ps)
  show ?case
  proof (cases "fst p = k")
    case True
    with Cons.prems have "k \<notin> fst ` set ps" by auto
    then have "filter (\<lambda>q. fst q \<noteq> k) ps = ps"
      by (auto simp: filter_id_conv intro: rev_image_eqI)
    with True Cons.prems show ?thesis
      by (cases p) (simp add: map_delete_def)
  next
    case False
    with Cons show ?thesis by (cases p) (simp add: map_delete_def)
  qed
qed

lemma Delete_accounting:
  "one_entry_per_key c \<Longrightarrow> accounting_ok c \<Longrightarrow> accounting_ok (Delete k c)"
  by (auto simp: Delete_def accounting_ok_def one_entry_per_key_def storedBytes_map_delete
           split: option.splits)

lemma evictExpired_accounting:
  "one_entry_per_key c \<Longrightarrow> accounting_ok c \<Longrightarrow> accounting_ok (evictExpired now c)"
  by (simp add: one_entry_per_key_def evictExpired_distinct(3))

lemma evictOldest_accounting:
  assumes "one_entry_per_key c" and "accounting_ok c"
  shows "accounting_ok (evictOldest n c)"
proof (cases "n \<le> 0")
  case True
  with assms(2) show ?thesis by (simp add: evictOldest_def)
next
  case False
  let ?s = "sortByExpiry (items c)"
  have dk: "distinct (map fst (items c))" using assms(1) by (simp add: one_entry_per_key_def)
  have ds: "distinct ?s" using dk by (simp add: sortByExpiry_distinct distinct_keys_distinct)
  have sub: "set (take (nat n) ?s) \<subseteq> set (items c)"
    using set_take_subset [of "nat n" ?s] by (simp add: sortByExpiry_set)
  from evictOldest_loop_distinct(3) [OF dk distinct_take [OF ds] sub assms(2)] False
  show ?thesis by (simp add: evictOldest_def)
qed

text \<open>
  \<open>Set\<close> on a key that is already stored, when the new value does not fit: the size of
  the old entry is subtracted once before \<open>evictToFitMemory\<close> and once more when that
  eviction removes the old entry itself. With \<open>maxMemory = 100\<close>, 40-byte values under
  \<open>a\<close> and \<open>b\<close>, then a 70-byte value under \<open>a\<close>: the map holds 110 bytes and the total
  says 70.
\<close>

lemma Set_replace_counts_twice:
  "currentSize (Set ''a'' (VString ''cccccccccccccccccccccccccccccccccccccccccccccccccccccc'') 30 1 (Set ''b'' (VString ''bbbbbbbbbbbbbbbbbbbbbbbb'') 20 0 (Set ''a'' (VString ''aaaaaaaaaaaaaaaaaaaaaaaa'') 10 0 \<lparr>items = [], defaultTTL = 60, maxItems = 0, maxMemory = 100, currentSize = 0\<rparr>))) = 70
   \<and> storedBytes (items (Set ''a'' (VString ''cccccccccccccccccccccccccccccccccccccccccccccccccccccc'') 30 1 (Set ''b'' (VString ''bbbbbbbbbbbbbbbbbbbbbbbb'') 20 0 (Set ''a'' (VString ''aaaaaaaaaaaaaaaaaaaaaaaa'') 10 0 \<lparr>items = [], defaultTTL = 60, maxItems = 0, maxMemory = 100, currentSize = 0\<rparr>)))) = 110
   \<and> \<not> accounting_ok (Set ''a'' (VString ''cccccccccccccccccccccccccccccccccccccccccccccccccccccc'') 30 1 (Set ''b'' (VString ''bbbbbbbbbbbbbbbbbbbbbbbb'') 20 0 (Set ''a'' (VString ''aaaaaaaaaaaaaaaaaaaaaaaa'') 10 0 \<lparr>items = [], defaultTTL = 60, maxItems = 0, maxMemory = 100, currentSize = 0\<rparr>)))"
proof -
  have c2: "Set ''b'' (VString ''bbbbbbbbbbbbbbbbbbbbbbbb'') 20 0 (Set ''a'' (VString ''aaaaaaaaaaaaaaaaaaaaaaaa'') 10 0 \<lparr>items = [], defaultTTL = 60, maxItems = 0, maxMemory = 100, currentSize = 0\<rparr>)
              = \<lparr>items = [(''a'', \<lparr>item_value = VString ''aaaaaaaaaaaaaaaaaaaaaaaa'', expiresAt = 10, item_size = 40\<rparr>),
                          (''b'', \<lparr>item_value = VString ''bbbbbbbbbbbbbbbbbbbbbbbb'', expiresAt = 20, item_size = 40\<rparr>)],
                 defaultTTL = 60, maxItems = 0, maxMemory = 100, currentSize = 80\<rparr>"
    by (simp add: Set_def Let_def)
  have c3: "Set ''a'' (VString ''cccccccccccccccccccccccccccccccccccccccccccccccccccccc'') 30 1 (Set ''b'' (VString ''bbbbbbbbbbbbbbbbbbbbbbbb'') 20 0 (Set ''a'' (VString ''aaaaaaaaaaaaaaaaaaaaaaaa'') 10 0 \<lparr>items = [], defaultTTL = 60, maxItems = 0, maxMemory = 100, currentSize = 0\<rparr>))
              = \<lparr>items = [(''b'', \<lparr>item_value = VString ''bbbbbbbbbbbbbbbbbbbbbbbb'', expiresAt = 20, item_size = 40\<rparr>),
                          (''a'', \<lparr>item_value = VString ''cccccccccccccccccccccccccccccccccccccccccccccccccccccc'', expiresAt = 31, item_size = 70\<rparr>)],
                 defaultTTL = 60, maxItems = 0, maxMemory = 100, currentSize = 70\<rparr>"
    unfolding c2
    by (simp add: Set_def Let_def evictToFitMemory_def evictExpired_def evictOldestBySize_def
                  After_def map_delete_def)
  show ?thesis by (simp add: c3 accounting_ok_def)
qed

end
